(* ===== verification/Tickets_Prelude.thy ===== *)
theory Tickets_Prelude
  imports Complex_Main "HOL-Library.Sublist" "HOL-Library.Log_Nat"
begin

text \<open>
  Shared ground of the development: the collections of facts the component
  theories feed to the simplifier, the type names of the model, and generic
  lemmas about \<open>filter\<close> on lists (the only container operation the program
  performs) that the Filter Engine and the component model both use.

  \<^item> \<open>model_defs\<close>: definitions of operations, unfolded when an operation is
    evaluated or analysed branch by branch;
  \<^item> \<open>flag_simps\<close>: characteristic equations of the flag accessors;
  \<^item> \<open>inv_intros\<close>: preservation lemmas of the invariants, used as
    introduction rules in the reachability proofs.
\<close>

named_theorems model_defs "definitions of the modelled operations"
named_theorems flag_simps "characteristic equations of flag access and update"
named_theorems inv_intros "invariant preservation rules"

text \<open>
  A JavaScript string is kept as a list of bytes (its UTF-8 encoding). The
  program never indexes or measures a string, it only compares currency codes
  (ASCII) for equality and concatenates display text, so the encoding is not
  observable.
\<close>

type_synonym js_string = string

subsection \<open>Floors of rational numerals\<close>

lemma floor_rat_numeral [simp]:
  "\<lfloor>numeral a / numeral b :: rat\<rfloor> = numeral a div numeral b"
  using floor_divide_of_int_eq [of "numeral a" "numeral b", where ?'a = rat] by simp

lemma floor_rat_neg_numeral [simp]:
  "\<lfloor>- (numeral a / numeral b) :: rat\<rfloor> = - numeral a div numeral b"
  using floor_divide_of_int_eq [of "- numeral a" "numeral b", where ?'a = rat] by simp

subsection \<open>Filtering keeps order and multiplicity\<close>

lemma filter_subseq_both: "subseq (filter P xs) xs \<and> set (filter P xs) \<subseteq> set xs"
  by simp

lemma filter_all_pass [simp]: "(\<And>x. P x) \<Longrightarrow> filter P xs = xs"
  by (induction xs) simp_all

lemma filter_none_pass [simp]: "(\<And>x. \<not> P x) \<Longrightarrow> filter P xs = []"
  by (induction xs) simp_all

lemma set_filter_disj:
  "set (filter (\<lambda>x. P x \<or> Q x) xs) = set (filter P xs) \<union> set (filter Q xs)"
  by auto

lemma filter_disj_merge:
  "filter P (filter (\<lambda>x. P x \<or> Q x) xs) = filter P xs"
  by (induction xs) auto

lemma length_filter_disj_disjoint:
  "(\<And>x. \<not> (P x \<and> Q x)) \<Longrightarrow>
   length (filter (\<lambda>x. P x \<or> Q x) xs) = length (filter P xs) + length (filter Q xs)"
  by (induction xs) auto

lemma count_filter:
  "count_list (filter P xs) x = (if P x then count_list xs x else 0)"
  by (induction xs) auto

lemma filter_map_key:
  "filter (\<lambda>x. f x \<in> A) xs = filter (\<lambda>x. \<exists>a\<in>A. f x = a) xs"
  by (rule filter_cong) auto

lemma map_filter_key:
  "map f (filter (\<lambda>x. p (f x)) xs) = filter p (map f xs)"
  by (induction xs) auto

text \<open>
  The position of a kept element relative to another kept element is the
  position it had in the input: filtering a list sorted under any key yields a
  list sorted under that key.
\<close>

lemma sorted_wrt_filter_keep: "sorted_wrt R xs \<Longrightarrow> sorted_wrt R (filter P xs)"
  by (induction xs) auto

end
