(* ===== verification/JS_Number.thy ===== *)
theory JS_Number
  imports Tickets_Prelude
begin

text \<open>
  The values of TypeScript's type \<open>number\<close> and the operations the program
  applies to them: the literal (\<open>0.01\<close>), strict equality (\<open>ticket.stops === 1\<close>),
  truthiness (\<open>rate || 1\<close>) and multiplication (\<open>price * rate\<close>). Printing
  (\<open>toFixed\<close>, \<open>toString\<close>) is in \<open>JS_Format\<close>.

  A number is an IEEE-754 binary64 value. A finite one is kept as the rational
  it denotes, so equality of the model is equality of values; the two zeros are
  identified, which no operation of the program can observe (\<open>-0 === 0\<close>,
  both zeros are falsy, and both print without a sign). Rounding to
  the nearest representable value, ties to even, is \<open>binary64\<close>: every arithmetic
  result and every decimal literal goes through it, so \<open>0.01\<close> is the double
  next to one hundredth and not one hundredth. The set of finite doubles is
  also given on its own, as \<open>is_binary64\<close>, and the rounding is shown to be the
  one of IEEE 754 with respect to it: nearest, ties to even, overflow from
  half a spacing above the largest finite value.
\<close>

datatype number = Num rat | PosInf | NegInf | NaN

subsection \<open>Rounding a rational to binary64\<close>

definition round_half_even :: "rat \<Rightarrow> int" where
  "round_half_even r =
     (let f = \<lfloor>r\<rfloor>; d = r - of_int f
      in if d < 1 / 2 then f
         else if 1 / 2 < d then f + 1
         else if even f then f else f + 1)"

text \<open>
  \<open>ilog2 a\<close> is the binary exponent of a positive rational: the \<open>e\<close> with
  \<open>2\<^sup>e \<le> a < 2\<^sup>e\<^sup>+\<^sup>1\<close>, found from the bit lengths of numerator and denominator.
\<close>

definition ilog2 :: "rat \<Rightarrow> int" where
  "ilog2 a =
     (case quotient_of a of (p, q) \<Rightarrow>
        (let e = bitlen p - bitlen q in if 2 powi e \<le> a then e else e - 1))"

text \<open>
  The spacing of binary64 values around \<open>x\<close>: 52 fraction bits below the
  leading bit, and never finer than the subnormal spacing \<open>2\<^sup>-\<^sup>1\<^sup>0\<^sup>7\<^sup>4\<close>.
\<close>

definition uexp :: "rat \<Rightarrow> int" where
  "uexp x = max (ilog2 \<bar>x\<bar>) (- 1022) - 52"

definition ulp :: "rat \<Rightarrow> rat" where
  "ulp x = 2 powi uexp x"

text \<open>
  The rounded value; a magnitude of \<open>2\<^sup>1\<^sup>0\<^sup>2\<^sup>4\<close> or more, which is beyond the largest
  finite binary64 value, becomes an infinity.
\<close>

definition huge :: rat where
  "huge = 2 ^ 1024"

definition binary64 :: "rat \<Rightarrow> number" where
  "binary64 x =
     (let y = of_int (round_half_even (x / ulp x)) * ulp x
      in if huge \<le> y then PosInf
         else if y \<le> - huge then NegInf
         else Num y)"

text \<open>The multiple of the spacing nearest to \<open>x\<close>: the rounded value before the range check.\<close>

definition rnd :: "rat \<Rightarrow> rat" where
  "rnd x = of_int (round_half_even (x / ulp x)) * ulp x"

definition representable :: "rat \<Rightarrow> bool" where
  "representable r \<longleftrightarrow> binary64 r = Num r"

text \<open>
  The finite binary64 values as IEEE 754 gives them, independently of the
  rounding above: an integer of at most 53 bits times a power of two, the
  exponent between that of the subnormal spacing and that of the largest
  binade.
\<close>

definition is_binary64 :: "rat \<Rightarrow> bool" where
  "is_binary64 r \<longleftrightarrow>
     (\<exists>e \<in> {- 1074 .. 971}.
        let s = r / 2 powi e in of_int \<lfloor>s\<rfloor> = s \<and> \<bar>s\<bar> < 2 ^ 53)"

fun wf_number :: "number \<Rightarrow> bool" where
  "wf_number (Num r) = representable r"
| "wf_number _ = True"

text \<open>A numeric literal of the source text denotes the double nearest to it.\<close>

definition lit :: "rat \<Rightarrow> number" where
  "lit r = binary64 r"

subsection \<open>Comparison, truthiness, multiplication\<close>

text \<open>\<open>a === b\<close> on numbers: \<open>NaN\<close> equals nothing, itself included.\<close>

fun strict_eq :: "number \<Rightarrow> number \<Rightarrow> bool" where
  "strict_eq (Num a) (Num b) = (a = b)"
| "strict_eq PosInf PosInf = True"
| "strict_eq NegInf NegInf = True"
| "strict_eq _ _ = False"

text \<open>\<open>ToBoolean\<close> on numbers: zero and \<open>NaN\<close> are falsy.\<close>

fun to_boolean :: "number \<Rightarrow> bool" where
  "to_boolean (Num r) = (r \<noteq> 0)"
| "to_boolean NaN = False"
| "to_boolean _ = True"

text \<open>
  \<open>a * b\<close>: \<open>NaN\<close> is absorbing, zero times an infinity is \<open>NaN\<close>, an infinity
  times a non-zero value is the infinity with the product's sign, and two finite
  values give their exact product rounded once.
\<close>

definition signed_inf :: "rat \<Rightarrow> number" where
  "signed_inf s = (if s = 0 then NaN else if 0 < s then PosInf else NegInf)"

fun sign_of :: "number \<Rightarrow> rat" where
  "sign_of (Num r) = sgn r"
| "sign_of PosInf = 1"
| "sign_of NegInf = - 1"
| "sign_of NaN = 0"

fun js_times :: "number \<Rightarrow> number \<Rightarrow> number" where
  "js_times NaN _ = NaN"
| "js_times _ NaN = NaN"
| "js_times (Num a) (Num b) = binary64 (a * b)"
| "js_times x y = signed_inf (sign_of x * sign_of y)"

subsection \<open>Multiplication of finite values\<close>

lemma js_times_Num: "js_times (Num a) (Num b) = binary64 (a * b)"
  by simp

declare js_times_Num [simp del]

subsection \<open>Powers of two\<close>

lemma two_powi_pos [simp]: "0 < (2::rat) powi e"
  by simp

lemma two_powi_le_iff [simp]: "(2::rat) powi e \<le> 2 powi e' \<longleftrightarrow> e \<le> e'"
  by (metis power_int_increasing power_int_strict_increasing not_le one_less_numeral_iff
      semiring_norm(76) less_imp_le)

lemma two_powi_less_iff [simp]: "(2::rat) powi e < 2 powi e' \<longleftrightarrow> e < e'"
  by (simp add: less_le_not_le)

lemma two_powi_nat: "0 \<le> k \<Longrightarrow> (2::rat) powi k = of_int (2 ^ nat k)"
  by (simp add: power_int_nonneg_exp)

lemma huge_powi: "huge = 2 powi 1024"
  by (simp add: huge_def)

lemma less_huge: "\<bar>x\<bar> < 2 powi k \<Longrightarrow> k \<le> 1024 \<Longrightarrow> \<bar>x\<bar> < huge"
proof -
  assume x: "\<bar>x\<bar> < 2 powi k" and k: "k \<le> 1024"
  have "(2::rat) powi k \<le> 2 powi 1024"
    by (rule power_int_increasing) (use k in simp_all)
  with x show ?thesis unfolding huge_powi by (rule less_le_trans)
qed

subsection \<open>The binary exponent\<close>

lemma bitlen_powi_bounds:
  assumes "0 < n"
  shows "(2::rat) powi (bitlen n - 1) \<le> of_int n" and "of_int n < (2::rat) powi bitlen n"
proof -
  from assms have b: "1 \<le> bitlen n" by (simp add: bitlen_alt_def)
  from bitlen_bounds [OF assms]
  have lo: "2 ^ nat (bitlen n - 1) \<le> n" and hi: "n < 2 ^ nat (bitlen n)" by simp_all
  have "(2::rat) powi (bitlen n - 1) = of_int (2 ^ nat (bitlen n - 1))"
    using b by (simp add: two_powi_nat)
  also have "\<dots> \<le> of_int n" using lo by (simp only: of_int_le_iff)
  finally show "(2::rat) powi (bitlen n - 1) \<le> of_int n" .
  have "(of_int n :: rat) < of_int (2 ^ nat (bitlen n))" using hi by (simp only: of_int_less_iff)
  also have "\<dots> = 2 powi bitlen n" using b by (simp add: two_powi_nat)
  finally show "of_int n < (2::rat) powi bitlen n" .
qed

lemma ilog2_bounds:
  assumes "0 < a"
  shows "2 powi ilog2 a \<le> a" and "a < 2 powi (ilog2 a + 1)"
proof -
  obtain p q where pq: "quotient_of a = (p, q)" by (cases "quotient_of a")
  then have q: "0 < q" by (rule quotient_of_denom_pos)
  from pq have a: "a = of_int p / of_int q" by (rule quotient_of_div)
  with assms q have p: "0 < p" by (simp add: zero_less_divide_iff)
  let ?e = "bitlen p - bitlen q"
  note P = bitlen_powi_bounds [OF p] and Q = bitlen_powi_bounds [OF q]
  have "(2::rat) powi (?e - 1) = 2 powi ((bitlen p - 1) - bitlen q)"
    by (simp add: algebra_simps)
  also have "\<dots> = 2 powi (bitlen p - 1) / 2 powi bitlen q"
    by (rule power_int_diff) simp
  also have "\<dots> < of_int p / of_int q"
    using P(1) Q(2) q by (intro frac_less2) simp_all
  finally have lo: "2 powi (?e - 1) < a" by (simp add: a)
  have "of_int p / of_int q < (2::rat) powi bitlen p / 2 powi (bitlen q - 1)"
    using P(2) Q(1) p by (intro frac_less) simp_all
  also have "\<dots> = 2 powi (bitlen p - (bitlen q - 1))"
    by (rule power_int_diff [symmetric]) simp
  also have "\<dots> = 2 powi (?e + 1)" by (simp add: algebra_simps)
  finally have hi: "a < 2 powi (?e + 1)" by (simp add: a)
  have "2 powi ilog2 a \<le> a \<and> a < 2 powi (ilog2 a + 1)"
  proof (cases "2 powi ?e \<le> a")
    case True
    with pq hi show ?thesis by (simp add: ilog2_def Let_def)
  next
    case False
    with pq lo show ?thesis by (simp add: ilog2_def Let_def)
  qed
  then show "2 powi ilog2 a \<le> a" and "a < 2 powi (ilog2 a + 1)" by simp_all
qed

lemma ilog2_unique:
  assumes "0 < a" and lo: "2 powi e \<le> a" and hi: "a < 2 powi (e + 1)"
  shows "ilog2 a = e"
proof -
  note b = ilog2_bounds [OF assms(1)]
  from lo b(2) have "(2::rat) powi e < 2 powi (ilog2 a + 1)" by (rule le_less_trans)
  moreover from b(1) hi have "(2::rat) powi ilog2 a < 2 powi (e + 1)" by (rule le_less_trans)
  ultimately show ?thesis by simp
qed

subsection \<open>Rounding to an integer\<close>

lemma round_half_even_of_int [simp]: "round_half_even (of_int n) = n"
  by (simp add: round_half_even_def)

lemma round_half_even_disj:
  "(round_half_even r = \<lfloor>r\<rfloor> \<and> r - of_int \<lfloor>r\<rfloor> \<le> 1 / 2) \<or>
   (round_half_even r = \<lfloor>r\<rfloor> + 1 \<and> 1 / 2 \<le> r - of_int \<lfloor>r\<rfloor>)"
  unfolding round_half_even_def Let_def by auto

lemma round_half_even_error: "\<bar>of_int (round_half_even r) - r\<bar> \<le> 1 / 2"
proof -
  have "of_int \<lfloor>r\<rfloor> \<le> r" "r < of_int \<lfloor>r\<rfloor> + 1" by linarith+
  with round_half_even_disj [of r] show ?thesis by auto
qed

lemma round_half_even_abs_le:
  assumes "\<bar>r\<bar> \<le> of_int b"
  shows "\<bar>round_half_even r\<bar> \<le> b"
proof -
  from round_half_even_error [of r] assms
  have "\<bar>of_int (round_half_even r) :: rat\<bar> < of_int b + 1" by linarith
  then have "(of_int \<bar>round_half_even r\<bar> :: rat) < of_int (b + 1)" by simp
  then have "\<bar>round_half_even r\<bar> < b + 1" by (simp only: of_int_less_iff)
  then show ?thesis by simp
qed

subsection \<open>The spacing\<close>

lemma ulp_pos [simp]: "0 < ulp x"
  by (simp add: ulp_def)

lemma ulp_neq_0 [simp]: "ulp x \<noteq> 0"
  by (rule less_imp_neq [OF ulp_pos, symmetric])

lemma uexp_ge: "- 1074 \<le> uexp x"
  by (simp add: uexp_def)

lemma abs_less_ulp: "\<bar>x\<bar> < 2 ^ 53 * ulp x"
proof (cases "x = 0")
  case True
  then show ?thesis by simp
next
  case False
  then have "\<bar>x\<bar> < 2 powi (ilog2 \<bar>x\<bar> + 1)" using ilog2_bounds(2) [of "\<bar>x\<bar>"] by simp
  also have "\<dots> \<le> 2 powi (uexp x + 53)" by (simp add: uexp_def)
  also have "\<dots> = 2 ^ 53 * ulp x" by (simp add: ulp_def power_int_add)
  finally show ?thesis .
qed

lemma uexp_le:
  assumes "x \<noteq> 0" and "\<bar>x\<bar> < 2 powi (k + 53)" and "- 1074 \<le> k"
  shows "uexp x \<le> k"
proof -
  from assms(1) have "2 powi ilog2 \<bar>x\<bar> \<le> \<bar>x\<bar>" using ilog2_bounds(1) [of "\<bar>x\<bar>"] by simp
  from this assms(2) have "(2::rat) powi ilog2 \<bar>x\<bar> < 2 powi (k + 53)" by (rule le_less_trans)
  then have "ilog2 \<bar>x\<bar> < k + 53" by simp
  with assms(3) show ?thesis by (simp add: uexp_def)
qed

lemma uexp_unique:
  assumes "2 powi e \<le> \<bar>x\<bar>" and "\<bar>x\<bar> < 2 powi (e + 1)"
  shows "uexp x = max e (- 1022) - 52"
proof -
  have "0 < \<bar>x\<bar>" by (rule less_le_trans [OF two_powi_pos assms(1)])
  then have "ilog2 \<bar>x\<bar> = e" using assms by (rule ilog2_unique)
  then show ?thesis by (simp add: uexp_def)
qed

subsection \<open>Rounding is exact on the binary64 grid\<close>

lemma binary64_Num_iff:
  "binary64 x = Num y \<longleftrightarrow>
     y = of_int (round_half_even (x / ulp x)) * ulp x \<and> \<bar>y\<bar> < huge"
  by (auto simp: binary64_def Let_def abs_less_iff not_le)

lemma binary64_exact:
  assumes "x / ulp x = of_int j" and "\<bar>x\<bar> < huge"
  shows "binary64 x = Num x"
proof -
  from assms(1) have "x = of_int j * ulp x" by (simp add: nonzero_divide_eq_eq)
  with assms show ?thesis by (simp add: binary64_Num_iff)
qed

lemma grid_point_less:
  assumes x: "x = of_int n * 2 powi k" and n: "\<bar>n\<bar> < 2 ^ 53" and k: "- 1074 \<le> k"
  obtains j where "x / ulp x = of_int j"
proof (cases "x = 0")
  case True
  then have "x / ulp x = of_int 0" by simp
  then show ?thesis by (rule that)
next
  case False
  from n have "(of_int \<bar>n\<bar> :: rat) < of_int (2 ^ 53)" by (simp only: of_int_less_iff)
  then have "\<bar>x\<bar> < 2 ^ 53 * 2 powi k" by (simp add: x abs_mult)
  also have "\<dots> = 2 powi (k + 53)" by (simp add: power_int_add)
  finally have "uexp x \<le> k" using False k by (intro uexp_le)
  then have p: "(2::rat) powi (k - uexp x) = of_int (2 ^ nat (k - uexp x))"
    by (simp add: two_powi_nat)
  have "x / ulp x = of_int n * (2 powi k / 2 powi uexp x)" by (simp add: x ulp_def)
  also have "\<dots> = of_int n * 2 powi (k - uexp x)" by (simp add: power_int_diff)
  also have "\<dots> = of_int (n * 2 ^ nat (k - uexp x))" by (simp add: p)
  finally show ?thesis by (rule that)
qed

lemma grid_point:
  assumes x: "x = of_int n * 2 powi k" and n: "\<bar>n\<bar> \<le> 2 ^ 53" and k: "- 1074 \<le> k"
  obtains j where "x / ulp x = of_int j"
proof (cases "\<bar>n\<bar> = 2 ^ 53")
  case True
  then have "even \<bar>n\<bar>" by simp
  then have "even n" by simp
  then have n2: "n = 2 * (n div 2)" by simp
  with True have "2 * \<bar>n div 2\<bar> = 2 ^ 53" by (simp add: abs_mult)
  then have half: "\<bar>n div 2\<bar> < 2 ^ 53" by simp
  have "x = of_int (n div 2) * 2 powi (k + 1)"
    by (subst x, subst n2) (simp add: power_int_add)
  moreover note half
  moreover from k have "- 1074 \<le> k + 1" by simp
  ultimately obtain j where "x / ulp x = of_int j" by (rule grid_point_less)
  then show ?thesis by (rule that)
next
  case False
  with n have "\<bar>n\<bar> < 2 ^ 53" by simp
  with x obtain j where "x / ulp x = of_int j" using k by (rule grid_point_less)
  then show ?thesis by (rule that)
qed

lemma binary64_grid_le:
  assumes x: "x = of_int n * 2 powi k" and n: "\<bar>n\<bar> \<le> 2 ^ 53" and k: "- 1074 \<le> k"
    and bound: "\<bar>x\<bar> < huge"
  shows "binary64 x = Num x"
proof -
  from x n k obtain j where "x / ulp x = of_int j" by (rule grid_point)
  then show ?thesis using bound by (rule binary64_exact)
qed

lemma binary64_grid:
  assumes x: "x = of_int n * 2 powi k" and n: "\<bar>n\<bar> < 2 ^ 53" and k: "- 1074 \<le> k"
    and bound: "\<bar>x\<bar> < huge"
  shows "binary64 x = Num x"
  using x _ k bound by (rule binary64_grid_le) (use n in simp)

lemma round_ulp_bound: "\<bar>round_half_even (x / ulp x)\<bar> \<le> 2 ^ 53"
proof -
  have "\<bar>x / ulp x\<bar> \<le> of_int (2 ^ 53)"
    using abs_less_ulp [of x] by (simp add: pos_divide_le_eq)
  then show ?thesis by (rule round_half_even_abs_le)
qed

lemma binary64_idem:
  assumes "binary64 x = Num y"
  shows "binary64 y = Num y"
proof -
  from assms [unfolded binary64_Num_iff]
  have "y = of_int (round_half_even (x / ulp x)) * ulp x" and "\<bar>y\<bar> < huge" by blast+
  then show ?thesis
    using round_ulp_bound [of x] uexp_ge [of x]
    by (intro binary64_grid_le [of y "round_half_even (x / ulp x)" "uexp x"])
       (simp_all add: ulp_def)
qed

lemma binary64_of_int:
  assumes "\<bar>n\<bar> \<le> 2 ^ 53"
  shows "binary64 (of_int n) = Num (of_int n)"
proof -
  from assms have "(of_int \<bar>n\<bar> :: rat) \<le> of_int (2 ^ 53)" by (simp only: of_int_le_iff)
  then have "\<bar>of_int n :: rat\<bar> < 2 powi 54" by simp
  then have "\<bar>of_int n :: rat\<bar> < huge" by (rule less_huge) simp
  with assms show ?thesis by (intro binary64_grid_le [of _ n 0]) simp_all
qed

lemma binary64_normal:
  assumes lo: "2 powi e \<le> \<bar>x\<bar>" and hi: "\<bar>x\<bar> < 2 powi (e + 1)"
    and e: "- 1022 \<le> e" "e < 1023"
  shows "binary64 x = Num (of_int (round_half_even (x / 2 powi (e - 52))) * 2 powi (e - 52))"
proof -
  from lo hi e(1) have u: "uexp x = e - 52" by (simp add: uexp_unique)
  let ?n = "round_half_even (x / ulp x)"
  from round_ulp_bound [of x] have "(of_int \<bar>?n\<bar> :: rat) \<le> of_int (2 ^ 53)"
    by (simp only: of_int_le_iff)
  then have "\<bar>of_int ?n * ulp x\<bar> \<le> 2 ^ 53 * 2 powi (e - 52)"
    by (simp add: abs_mult ulp_def u)
  also have "\<dots> = 2 powi (e + 1)" by (simp add: power_int_add power_int_diff)
  also have "\<dots> < 2 powi (e + 2)" by simp
  finally have "\<bar>of_int ?n * ulp x\<bar> < huge" using e(2) by (intro less_huge [of _ "e + 2"]) simp_all
  then have "binary64 x = Num (of_int ?n * ulp x)" by (simp add: binary64_Num_iff)
  then show ?thesis by (simp add: ulp_def u)
qed

lemma binary64_of_nat: "n \<le> 2 ^ 53 \<Longrightarrow> binary64 (of_nat n) = Num (of_nat n)"
  using binary64_of_int [of "int n"] by simp

lemma binary64_numeral [simp]:
  "numeral w \<le> (2 ^ 53 :: int) \<Longrightarrow> binary64 (numeral w) = Num (numeral w)"
  using binary64_of_int [of "numeral w"] by simp

lemma binary64_0 [simp]: "binary64 0 = Num 0"
  using binary64_of_int [of 0] by simp

lemma binary64_1 [simp]: "binary64 1 = Num 1"
  using binary64_of_int [of 1] by simp

subsection \<open>Every number the operations produce is a binary64 value\<close>

lemma representable_binary64: "binary64 x = Num y \<Longrightarrow> representable y"
  unfolding representable_def by (rule binary64_idem)

lemma wf_binary64 [simp]: "wf_number (binary64 x)"
  by (cases "binary64 x") (simp_all add: representable_binary64)

lemma wf_lit [simp]: "wf_number (lit r)"
  by (simp add: lit_def)

lemma wf_signed_inf [simp]: "wf_number (signed_inf s)"
  by (simp add: signed_inf_def)

lemma wf_js_times [simp]: "wf_number (js_times a b)"
  by (cases a; cases b) (simp_all add: js_times_Num)

subsection \<open>Literals of the program\<close>

lemma lit_numeral [simp]: "numeral w \<le> (2 ^ 53 :: int) \<Longrightarrow> lit (numeral w) = Num (numeral w)"
  by (simp add: lit_def)

lemma lit_0 [simp]: "lit 0 = Num 0"
  by (simp add: lit_def)

lemma lit_1 [simp]: "lit 1 = Num 1"
  by (simp add: lit_def)

lemma lit_small: "lit 0 = Num 0" "lit 1 = Num 1" "lit 2 = Num 2" "lit 3 = Num 3"
  by simp_all

subsection \<open>The error of rounding\<close>

lemma binary64_half_ulp:
  assumes "binary64 x = Num y"
  shows "\<bar>y - x\<bar> \<le> ulp x / 2"
proof -
  from assms [unfolded binary64_Num_iff]
  have y: "y = of_int (round_half_even (x / ulp x)) * ulp x" by blast
  have "y - x = (of_int (round_half_even (x / ulp x)) - x / ulp x) * ulp x"
    by (simp add: y algebra_simps)
  then have "\<bar>y - x\<bar> = \<bar>of_int (round_half_even (x / ulp x)) - x / ulp x\<bar> * ulp x"
    by (simp add: abs_mult abs_of_pos)
  also have "\<dots> \<le> 1 / 2 * ulp x"
    by (intro mult_right_mono round_half_even_error less_imp_le ulp_pos)
  finally show ?thesis by simp
qed

lemma binary64_finite:
  assumes lo: "2 powi l \<le> \<bar>x\<bar>" and hi: "\<bar>x\<bar> < 2 powi h"
    and l: "- 1022 \<le> l" and h: "h \<le> 1023"
  obtains y where "binary64 x = Num y" and "\<bar>y - x\<bar> \<le> 2 powi (h - 54)"
proof -
  define e where "e = ilog2 \<bar>x\<bar>"
  have pos: "0 < \<bar>x\<bar>" using lo two_powi_pos [of l] by linarith
  have b: "2 powi e \<le> \<bar>x\<bar>" "\<bar>x\<bar> < 2 powi (e + 1)"
    unfolding e_def using ilog2_bounds [OF pos] by simp_all
  have "(2::rat) powi l < 2 powi (e + 1)" using lo b(2) by linarith
  then have le: "l \<le> e" by simp
  have "(2::rat) powi e < 2 powi h" using hi b(1) by linarith
  then have eh: "e < h" by simp
  define y where "y = of_int (round_half_even (x / 2 powi (e - 52))) * (2::rat) powi (e - 52)"
  have bin: "binary64 x = Num y"
    unfolding y_def using b le eh l h by (intro binary64_normal) simp_all
  have u: "uexp x = e - 52" using uexp_unique [OF b] le l by simp
  have "\<bar>y - x\<bar> \<le> ulp x / 2" using bin by (rule binary64_half_ulp)
  also have "ulp x / 2 = 2 powi (e - 53)"
    by (simp add: ulp_def u power_int_diff)
  also have "\<dots> \<le> 2 powi (h - 54)" using eh by simp
  finally show ?thesis using bin that by blast
qed

subsection \<open>What rounds to a given binary64 value\<close>

text \<open>
  A rational within the relative distance \<open>2\<^sup>-\<^sup>5\<^sup>4\<close> of a positive binary64 value
  rounds to it. Above the value the next one is a whole spacing away; below a
  power of two the spacing is half as wide, which is why the distance is taken
  relative to the value and not to its spacing.
\<close>

lemma round_half_even_near:
  assumes "\<bar>r - of_int n\<bar> < 1 / 2"
  shows "round_half_even r = n"
proof -
  have "(of_int (round_half_even r) :: rat) - of_int n
          = (of_int (round_half_even r) - r) + (r - of_int n)" by simp
  then have "\<bar>(of_int (round_half_even r) :: rat) - of_int n\<bar>
          \<le> \<bar>of_int (round_half_even r) - r\<bar> + \<bar>r - of_int n\<bar>"
    by (simp only: abs_triangle_ineq)
  with round_half_even_error [of r] assms
  have "\<bar>(of_int (round_half_even r) :: rat) - of_int n\<bar> < 1" by linarith
  then have "(of_int \<bar>round_half_even r - n\<bar> :: rat) < of_int 1" by simp
  then have "\<bar>round_half_even r - n\<bar> < 1" by (simp only: of_int_less_iff)
  then show ?thesis by simp
qed

lemma binary64_close:
  assumes j: "a = of_int j * ulp v" and near: "\<bar>v - a\<bar> < ulp v / 2" and fin: "\<bar>a\<bar> < huge"
  shows "binary64 v = Num a"
proof -
  have "v / ulp v - of_int j = (v - a) / ulp v" by (simp add: j diff_divide_distrib)
  then have "\<bar>v / ulp v - of_int j\<bar> = \<bar>v - a\<bar> / ulp v" by (simp add: abs_of_pos)
  also have "\<dots> < 1 / 2" using near by (simp add: pos_divide_less_eq)
  finally have "round_half_even (v / ulp v) = j" by (rule round_half_even_near)
  with j fin show ?thesis by (simp add: binary64_Num_iff)
qed

lemma representable_multiple:
  assumes "binary64 a = Num a" and "0 < a"
  obtains n where "a = of_int n * ulp a" and "0 < n" and "n < 2 ^ 53"
proof -
  from assms(1) [unfolded binary64_Num_iff]
  obtain n where n: "a = of_int n * ulp a" by blast
  from assms(2) have "0 < of_int n * ulp a" by (subst n [symmetric])
  then have "(0 :: rat) < of_int n" by (rule zero_less_mult_pos2) simp
  then have pos: "0 < n" by simp
  have "of_int n * ulp a < 2 ^ 53 * ulp a" using abs_less_ulp [of a] assms(2) n by simp
  then have "(of_int n :: rat) < of_int (2 ^ 53)" by simp
  then have "n < 2 ^ 53" by (simp only: of_int_less_iff)
  with n pos that show ?thesis by blast
qed

lemma near_facts:
  assumes rep: "binary64 a = Num a" and pos: "0 < a" and near: "\<bar>v - a\<bar> < a * 2 powi (- 54)"
  shows "a * 2 powi (- 54) < ulp a / 2" and "a / 2 < v" and "uexp v \<le> uexp a"
proof -
  define U where "U = ulp a"
  from rep pos obtain n where n: "a = of_int n * U" "0 < n" "n < 2 ^ 53"
    unfolding U_def by (rule representable_multiple)
  have Upos: "0 < U" by (simp add: U_def)
  have p54: "(2 :: rat) powi (- 54) = 1 / 2 ^ 54" by (simp add: power_int_minus field_simps)
  from n(3) have "n \<le> 2 ^ 53 - 1" by simp
  then have "(of_int n :: rat) \<le> of_int (2 ^ 53 - 1)" by (simp only: of_int_le_iff)
  then have "of_int n * U \<le> (2 ^ 53 - 1) * U" using Upos by (intro mult_right_mono) simp_all
  then have aU: "a \<le> (2 ^ 53 - 1) * U" by (simp only: n(1))
  then have small: "a * 2 powi (- 54) < U / 2" using Upos by (simp add: p54 field_simps)
  then show "a * 2 powi (- 54) < ulp a / 2" by (simp only: U_def)
  have "a * 2 powi (- 54) \<le> a / 2" using pos by (simp add: p54 field_simps)
  with near show vhalf: "a / 2 < v" by (auto simp: abs_if split: if_splits)
  with pos have vpos: "0 < v" by linarith
  from near small aU have "v < 2 ^ 53 * U" by (auto simp: abs_if algebra_simps split: if_splits)
  then have "\<bar>v\<bar> < 2 powi (uexp a + 53)"
    using vpos by (simp add: U_def ulp_def power_int_add)
  with vpos show "uexp v \<le> uexp a" by (intro uexp_le uexp_ge) simp_all
qed

lemma multiple_above_power:
  fixes U :: rat
  assumes "0 < U" and "2 ^ 52 * U \<le> of_int n * U" and "n \<noteq> 2 ^ 52"
  shows "(2 ^ 52 + 1) * U \<le> of_int n * U"
proof -
  from assms(1,2) have "(of_int (2 ^ 52) :: rat) \<le> of_int n" by simp
  then have "2 ^ 52 \<le> n" by (simp only: of_int_le_iff)
  with assms(3) have "2 ^ 52 + 1 \<le> n" by simp
  then have "(of_int (2 ^ 52 + 1) :: rat) \<le> of_int n" by (simp only: of_int_le_iff)
  then show ?thesis using assms(1) by (intro mult_right_mono) simp_all
qed

lemma near_lower_binade:
  assumes rep: "binary64 a = Num a" and pos: "0 < a" and near: "\<bar>v - a\<bar> < a * 2 powi (- 54)"
    and lt: "uexp v < uexp a"
  shows "a = 2 ^ 53 * ulp v" and "a * 2 powi (- 54) = ulp v / 2"
proof -
  define e where "e = ilog2 a"
  define U where "U = ulp a"
  note f = near_facts [OF rep pos near, folded U_def]
  from rep pos obtain n where n: "a = of_int n * U" "0 < n" "n < 2 ^ 53"
    unfolding U_def by (rule representable_multiple)
  have b: "2 powi e \<le> a" using ilog2_bounds [OF pos] by (simp add: e_def)
  have ua: "uexp a = max e (- 1022) - 52" using pos by (simp add: uexp_def e_def)
  from pos f(2) have vpos: "0 < v" by linarith
  define g where "g = ilog2 v"
  have bv: "v < 2 powi (g + 1)" using ilog2_bounds [OF vpos] by (simp add: g_def)
  have uv: "uexp v = max g (- 1022) - 52" using vpos by (simp add: uexp_def g_def)
  from lt have e: "- 1022 < e" and ge: "g < e" unfolding ua uv by linarith+
  have "2 powi (e - 1) = (2 :: rat) powi e / 2" by (simp add: power_int_diff)
  also have "\<dots> \<le> a / 2" using b by simp
  finally have "(2 :: rat) powi (e - 1) < 2 powi (g + 1)" using f(2) bv by linarith
  with ge have g: "g = e - 1" by simp
  have Ue: "U = 2 powi (e - 52)" using e by (simp add: U_def ulp_def ua)
  have uv': "ulp v = U / 2" using e by (simp add: ulp_def uv g Ue power_int_diff)
  have e2: "(2 :: rat) powi e = 2 ^ 52 * U" by (simp add: Ue power_int_diff)
  from bv have vlt: "v < 2 ^ 52 * U" by (simp add: g e2)
  have "n = 2 ^ 52"
  proof (rule ccontr)
    assume "n \<noteq> 2 ^ 52"
    moreover have "0 < U" by (simp add: U_def)
    moreover from b have "2 ^ 52 * U \<le> of_int n * U" by (simp only: e2 n(1))
    ultimately have "(2 ^ 52 + 1) * U \<le> a" unfolding n(1) by (intro multiple_above_power)
    with vlt near f(1) show False by (auto simp: abs_if algebra_simps split: if_splits)
  qed
  then have a: "a = 2 ^ 52 * U" by (simp add: n(1))
  then show "a = 2 ^ 53 * ulp v" by (simp add: uv')
  show "a * 2 powi (- 54) = ulp v / 2" by (simp add: a uv' power_int_minus field_simps)
qed

lemma binary64_near:
  assumes rep: "binary64 a = Num a" and pos: "0 < a" and near: "\<bar>v - a\<bar> < a * 2 powi (- 54)"
  shows "binary64 v = Num a"
proof -
  note f = near_facts [OF assms]
  from rep have fin: "\<bar>a\<bar> < huge" by (simp add: binary64_Num_iff)
  show ?thesis
  proof (cases "uexp v = uexp a")
    case True
    then have u: "ulp v = ulp a" by (simp add: ulp_def)
    from rep pos obtain n where "a = of_int n * ulp a" by (rule representable_multiple)
    then have j: "a = of_int n * ulp v" by (simp only: u)
    have "\<bar>v - a\<bar> < ulp v / 2" using near f(1) by (simp only: u)
    with j show ?thesis using fin by (rule binary64_close)
  next
    case False
    with f(3) have "uexp v < uexp a" by simp
    note l = near_lower_binade [OF assms this]
    from l(1) have j: "a = of_int (2 ^ 53) * ulp v" by simp
    from near have "\<bar>v - a\<bar> < ulp v / 2" by (simp only: l(2))
    with j show ?thesis using fin by (rule binary64_close)
  qed
qed

subsection \<open>Rounding picks the nearest binary64 value\<close>

text \<open>
  No binary64 value is nearer to \<open>x\<close> than the one \<open>x\<close> rounds to. Values beside
  the binade of \<open>x\<close> are multiples of a finer or coarser spacing; the coarser ones
  are multiples of the spacing of \<open>x\<close> as well, and the finer ones lie beyond the
  power of two that bounds the binade, which is such a multiple. It follows
  that whatever lies between a value and a number that rounds to it rounds to
  it too.
\<close>

lemma nearest_integer:
  "\<bar>of_int (round_half_even r) - r\<bar> \<le> \<bar>of_int m - r\<bar>"
proof (cases "m = round_half_even r")
  case True
  then show ?thesis by simp
next
  case False
  then have "1 \<le> \<bar>m - round_half_even r\<bar>" by simp
  then have "(of_int 1 :: rat) \<le> of_int \<bar>m - round_half_even r\<bar>" by (simp only: of_int_le_iff)
  then have "1 \<le> \<bar>(of_int m :: rat) - of_int (round_half_even r)\<bar>" by simp
  also have "\<dots> \<le> \<bar>of_int m - r\<bar> + \<bar>of_int (round_half_even r) - r\<bar>"
    by (rule abs_triangle_ineq4 [of "of_int m - r" "of_int (round_half_even r) - r", simplified])
  finally show ?thesis using round_half_even_error [of r] by linarith
qed

lemma abs_multiple_diff: "\<bar>of_int k * ulp x - x\<bar> = \<bar>of_int k - x / ulp x\<bar> * ulp x"
proof -
  have "of_int k * ulp x - x = (of_int k - x / ulp x) * ulp x" by (simp add: algebra_simps)
  then show ?thesis by (simp add: abs_mult abs_of_pos)
qed

lemma nearest_multiple:
  "\<bar>rnd x - x\<bar> \<le> \<bar>of_int m * ulp x - x\<bar>"
  unfolding rnd_def abs_multiple_diff using nearest_integer [of "x / ulp x" m]
  by (simp add: mult_right_mono)

lemma binary64_rnd: "binary64 x = Num y \<longleftrightarrow> y = rnd x \<and> \<bar>rnd x\<bar> < huge"
  by (auto simp: binary64_Num_iff rnd_def)

lemma coarser_multiple:
  assumes "uexp x \<le> uexp r"
  obtains m where "of_int k * ulp r = of_int m * ulp x"
proof -
  have "ulp r = 2 powi (uexp r - uexp x) * ulp x"
    by (simp add: ulp_def power_int_add [symmetric])
  also have "(2 :: rat) powi (uexp r - uexp x) = of_int (2 ^ nat (uexp r - uexp x))"
    using assms by (simp add: two_powi_nat)
  finally have "of_int k * ulp r = of_int (k * 2 ^ nat (uexp r - uexp x)) * ulp x" by simp
  then show ?thesis by (rule that)
qed

lemma finer_below_binade:
  assumes "uexp r < uexp x" and x: "x \<noteq> 0"
  shows "\<bar>r\<bar> < 2 ^ 52 * ulp x" and "2 ^ 52 * ulp x \<le> \<bar>x\<bar>"
proof -
  from assms uexp_ge [of r] have e: "- 1022 < ilog2 \<bar>x\<bar>" and u: "uexp x = ilog2 \<bar>x\<bar> - 52"
    unfolding uexp_def by linarith+
  have "\<bar>r\<bar> < 2 ^ 53 * ulp r" by (rule abs_less_ulp)
  also have "\<dots> = 2 powi (uexp r + 53)" by (simp add: ulp_def power_int_add)
  also have "\<dots> \<le> 2 powi (uexp x + 52)" using assms by simp
  also have "\<dots> = 2 ^ 52 * ulp x" by (simp add: ulp_def power_int_add)
  finally show "\<bar>r\<bar> < 2 ^ 52 * ulp x" .
  have "2 ^ 52 * ulp x = 2 powi ilog2 \<bar>x\<bar>" by (simp add: ulp_def u power_int_diff)
  also have "\<dots> \<le> \<bar>x\<bar>" using x ilog2_bounds(1) [of "\<bar>x\<bar>"] by simp
  finally show "2 ^ 52 * ulp x \<le> \<bar>x\<bar>" .
qed

lemma finer_farther:
  assumes "uexp r < uexp x" and "x \<noteq> 0"
  shows "\<bar>rnd x - x\<bar> < \<bar>r - x\<bar>"
proof -
  note b = finer_below_binade [OF assms]
  show ?thesis
  proof (cases "0 \<le> x")
    case True
    have "\<bar>rnd x - x\<bar> \<le> \<bar>of_int (2 ^ 52) * ulp x - x\<bar>" by (rule nearest_multiple)
    also have "\<dots> < \<bar>r - x\<bar>" using b True by (auto simp: abs_if split: if_splits)
    finally show ?thesis .
  next
    case False
    have "\<bar>rnd x - x\<bar> \<le> \<bar>of_int (- (2 ^ 52)) * ulp x - x\<bar>" by (rule nearest_multiple)
    also have "\<dots> < \<bar>r - x\<bar>" using b False by (auto simp: abs_if split: if_splits)
    finally show ?thesis .
  qed
qed

lemma rnd_0 [simp]: "rnd 0 = 0"
  using round_half_even_of_int [of 0] by (simp add: rnd_def)

lemma rnd_nearest:
  assumes "r / ulp r = of_int k"
  shows "\<bar>rnd x - x\<bar> \<le> \<bar>r - x\<bar>"
proof (cases "x = 0 \<or> uexp x \<le> uexp r")
  case True
  then consider "x = 0" | "uexp x \<le> uexp r" by blast
  then show ?thesis
  proof cases
    case 1
    then show ?thesis by simp
  next
    case 2
    from assms have "r = of_int k * ulp r" by (simp add: nonzero_divide_eq_eq)
    moreover obtain m where "of_int k * ulp r = of_int m * ulp x"
      using 2 by (rule coarser_multiple)
    ultimately have "r = of_int m * ulp x" by simp
    then show ?thesis using nearest_multiple [of x m] by simp
  qed
next
  case False
  then have "\<bar>rnd x - x\<bar> < \<bar>r - x\<bar>" by (intro finer_farther) simp_all
  then show ?thesis by simp
qed

lemma rnd_grid_point: obtains j where "rnd x / ulp (rnd x) = of_int j"
proof -
  have "rnd x = of_int (round_half_even (x / ulp x)) * 2 powi uexp x"
    by (simp add: rnd_def ulp_def)
  then obtain j where "rnd x / ulp (rnd x) = of_int j"
    using round_ulp_bound [of x] uexp_ge [of x] by (rule grid_point)
  then show ?thesis by (rule that)
qed

lemma representable_grid_point:
  assumes "binary64 r = Num r"
  obtains k where "r / ulp r = of_int k"
proof -
  from assms have "r = rnd r" by (simp add: binary64_rnd)
  then have "r / ulp r = of_int (round_half_even (r / ulp r))" by (simp add: rnd_def nonzero_divide_eq_eq)
  then show ?thesis by (rule that)
qed

lemma binary64_between:
  assumes a: "binary64 a = Num a" and d: "binary64 d = Num a"
    and v: "d \<le> v \<and> v \<le> a \<or> a \<le> v \<and> v \<le> d"
  shows "binary64 v = Num a"
proof -
  from d have da: "rnd d = a" and fin: "\<bar>a\<bar> < huge" by (simp_all add: binary64_rnd)
  from a obtain k where "a / ulp a = of_int k" by (rule representable_grid_point)
  then have 1: "\<bar>rnd v - v\<bar> \<le> \<bar>a - v\<bar>" by (rule rnd_nearest)
  obtain j where "rnd v / ulp (rnd v) = of_int j" by (rule rnd_grid_point)
  then have "\<bar>rnd d - d\<bar> \<le> \<bar>rnd v - d\<bar>" by (rule rnd_nearest)
  then have 2: "\<bar>a - d\<bar> \<le> \<bar>rnd v - d\<bar>" by (simp only: da)
  have "rnd v = a"
  proof (cases "v = d")
    case True
    with da show ?thesis by simp
  next
    case False
    with v consider "d < v" "v \<le> a" | "a \<le> v" "v < d" by linarith
    then show ?thesis
    proof cases
      case 1
      with \<open>\<bar>rnd v - v\<bar> \<le> \<bar>a - v\<bar>\<close> have "rnd v \<le> a" "2 * v - a \<le> rnd v" by linarith+
      with 1 \<open>\<bar>a - d\<bar> \<le> \<bar>rnd v - d\<bar>\<close> show ?thesis by (cases "d \<le> rnd v") linarith+
    next
      case 2
      with \<open>\<bar>rnd v - v\<bar> \<le> \<bar>a - v\<bar>\<close> have "a \<le> rnd v" "rnd v \<le> 2 * v - a" by linarith+
      with 2 \<open>\<bar>a - d\<bar> \<le> \<bar>rnd v - d\<bar>\<close> show ?thesis by (cases "rnd v \<le> d") linarith+
    qed
  qed
  with fin show ?thesis by (simp add: binary64_rnd)
qed

subsection \<open>Rounding is symmetric\<close>

lemma round_half_even_tie:
  assumes "\<bar>of_int n - r\<bar> = 1 / 2" and "even n"
  shows "round_half_even r = n"
proof -
  from assms(1) consider "r = of_int n + 1 / 2" | "r = of_int n - 1 / 2"
    by (auto simp: abs_if split: if_splits)
  then show ?thesis
  proof cases
    case 1
    then have "\<lfloor>r\<rfloor> = n" by (intro floor_unique) simp_all
    with 1 assms(2) show ?thesis by (simp add: round_half_even_def)
  next
    case 2
    then have "\<lfloor>r\<rfloor> = n - 1" by (intro floor_unique) simp_all
    with 2 assms(2) show ?thesis by (simp add: round_half_even_def)
  qed
qed

lemma round_half_even_spec:
  "\<bar>of_int (round_half_even r) - r\<bar> < 1 / 2 \<or>
   \<bar>of_int (round_half_even r) - r\<bar> = 1 / 2 \<and> even (round_half_even r)"
proof -
  define f d where "f = \<lfloor>r\<rfloor>" and "d = r - of_int \<lfloor>r\<rfloor>"
  have d: "0 \<le> d" "d < 1" unfolding d_def by linarith+
  have r: "r = of_int f + d" by (simp add: f_def d_def)
  have "round_half_even r =
      (if d < 1 / 2 then f else if 1 / 2 < d then f + 1 else if even f then f else f + 1)"
    by (simp add: round_half_even_def Let_def f_def d_def)
  with d show ?thesis by (auto simp: r abs_if)
qed

lemma round_half_even_minus: "round_half_even (- r) = - round_half_even r"
proof -
  have "\<bar>of_int (- round_half_even r) - (- r)\<bar> = \<bar>of_int (round_half_even r) - r\<bar>"
    by (simp add: abs_if)
  with round_half_even_spec [of r]
  consider "\<bar>of_int (- round_half_even r) - (- r)\<bar> < 1 / 2"
    | "\<bar>of_int (- round_half_even r) - (- r)\<bar> = 1 / 2" "even (- round_half_even r)"
    by auto
  then show ?thesis
  proof cases
    case 1
    then have "\<bar>- r - of_int (- round_half_even r)\<bar> < 1 / 2" by (simp add: abs_if split: if_splits)
    then show ?thesis by (rule round_half_even_near)
  next
    case 2
    then show ?thesis by (rule round_half_even_tie)
  qed
qed

lemma ulp_minus [simp]: "ulp (- x) = ulp x"
  by (simp add: ulp_def uexp_def)

lemma binary64_minus:
  assumes "binary64 x = Num y"
  shows "binary64 (- x) = Num (- y)"
proof -
  from assms [unfolded binary64_Num_iff]
  have y: "y = of_int (round_half_even (x / ulp x)) * ulp x" and fin: "\<bar>y\<bar> < huge" by blast+
  have "- y = of_int (round_half_even (- x / ulp (- x))) * ulp (- x)"
    by (subst y) (simp add: round_half_even_minus)
  with fin show ?thesis by (simp only: binary64_Num_iff abs_minus_cancel) simp
qed

subsection \<open>The binary64 values\<close>

text \<open>
  The fixed points of the rounding are the values of IEEE 754: the integers
  of at most 53 bits scaled by a power of two in the exponent range.
\<close>

lemma is_binary64_iff:
  "is_binary64 r \<longleftrightarrow>
     (\<exists>m e. \<bar>m\<bar> < 2 ^ 53 \<and> - 1074 \<le> e \<and> e \<le> 971 \<and> r = of_int m * 2 powi e)"
proof
  assume "is_binary64 r"
  then obtain e where e: "- 1074 \<le> e" "e \<le> 971"
    and int: "of_int \<lfloor>r / 2 powi e\<rfloor> = r / 2 powi e" and b: "\<bar>r / 2 powi e\<bar> < 2 ^ 53"
    by (auto simp: is_binary64_def Let_def)
  have "r = of_int \<lfloor>r / 2 powi e\<rfloor> * 2 powi e" by (simp add: int)
  moreover from b have "\<bar>of_int \<lfloor>r / 2 powi e\<rfloor> :: rat\<bar> < of_int (2 ^ 53)" by (simp add: int)
  then have "\<bar>\<lfloor>r / 2 powi e\<rfloor>\<bar> < 2 ^ 53" by (simp only: of_int_abs [symmetric] of_int_less_iff)
  ultimately show "\<exists>m e. \<bar>m\<bar> < 2 ^ 53 \<and> - 1074 \<le> e \<and> e \<le> 971 \<and> r = of_int m * 2 powi e"
    using e by blast
next
  assume "\<exists>m e. \<bar>m\<bar> < 2 ^ 53 \<and> - 1074 \<le> e \<and> e \<le> 971 \<and> r = of_int m * 2 powi e"
  then obtain m e where m: "\<bar>m\<bar> < 2 ^ 53" and e: "- 1074 \<le> e" "e \<le> 971"
    and r: "r = of_int m * 2 powi e" by blast
  from r have s: "r / 2 powi e = of_int m" by simp
  from m have "(of_int \<bar>m\<bar> :: rat) < of_int (2 ^ 53)" by (simp only: of_int_less_iff)
  then have "\<bar>r / 2 powi e\<bar> < 2 ^ 53" by (simp add: s)
  with e s show "is_binary64 r"
    unfolding is_binary64_def Let_def by (intro bexI [of _ e]) simp_all
qed

lemma uexp_finite: "\<bar>r\<bar> < huge \<Longrightarrow> uexp r \<le> 971"
proof (cases "r = 0")
  case True
  then show ?thesis by (simp add: uexp_def ilog2_def Let_def bitlen_def floorlog_def)
next
  case False
  assume "\<bar>r\<bar> < huge"
  then have "\<bar>r\<bar> < 2 powi (971 + 53)" by (simp add: huge_powi)
  with False show ?thesis by (intro uexp_le) simp_all
qed

lemma representable_is_binary64: "representable r \<longleftrightarrow> is_binary64 r"
proof
  assume "representable r"
  then have b: "binary64 r = Num r" by (simp add: representable_def)
  then obtain k where k: "r / ulp r = of_int k" by (rule representable_grid_point)
  then have r: "r = of_int k * 2 powi uexp r" by (simp add: nonzero_divide_eq_eq ulp_def)
  from abs_less_ulp [of r] have "\<bar>r / ulp r\<bar> < 2 ^ 53" by (simp add: pos_divide_less_eq)
  then have "(of_int \<bar>k\<bar> :: rat) < of_int (2 ^ 53)" by (simp add: k)
  then have "\<bar>k\<bar> < 2 ^ 53" by (simp only: of_int_less_iff)
  moreover from b [unfolded binary64_Num_iff] have "\<bar>r\<bar> < huge" by blast
  then have "uexp r \<le> 971" by (rule uexp_finite)
  ultimately show "is_binary64 r" using r uexp_ge [of r] unfolding is_binary64_iff by blast
next
  assume "is_binary64 r"
  then obtain m e where m: "\<bar>m\<bar> < 2 ^ 53" and e: "- 1074 \<le> e" "e \<le> 971"
    and r: "r = of_int m * 2 powi e" unfolding is_binary64_iff by blast
  from m have "(of_int \<bar>m\<bar> :: rat) < of_int (2 ^ 53)" by (simp only: of_int_less_iff)
  then have "\<bar>r\<bar> < 2 ^ 53 * 2 powi e" by (simp add: r abs_mult)
  also have "\<dots> = 2 powi (e + 53)" by (simp add: power_int_add)
  finally have "\<bar>r\<bar> < huge" by (rule less_huge) (use e in simp)
  with r m e(1) have "binary64 r = Num r" by (rule binary64_grid)
  then show "representable r" by (simp add: representable_def)
qed

subsection \<open>Ties\<close>

text \<open>
  When two binary64 values are equally near, they are neighbours at the
  spacing of the rounded number, and the one chosen is the even multiple of
  that spacing.
\<close>

lemma tie_integer:
  assumes tie: "\<bar>of_int m - q\<bar> = \<bar>of_int (round_half_even q) - q\<bar>"
    and ne: "m \<noteq> round_half_even q"
  shows "even (round_half_even q)" and "\<bar>m - round_half_even q\<bar> = 1"
proof -
  let ?n = "round_half_even q"
  have "\<bar>(of_int m :: rat) - of_int ?n\<bar> \<le> \<bar>of_int m - q\<bar> + \<bar>of_int ?n - q\<bar>"
    by (rule abs_triangle_ineq4 [of "of_int m - q" "of_int ?n - q", simplified])
  with tie have le: "(of_int \<bar>m - ?n\<bar> :: rat) \<le> 2 * \<bar>of_int ?n - q\<bar>" by simp
  from ne have "1 \<le> \<bar>m - ?n\<bar>" by simp
  then have ge: "(1 :: rat) \<le> of_int \<bar>m - ?n\<bar>" by (simp only: of_int_1_le_iff)
  from ge le have "1 \<le> 2 * \<bar>of_int ?n - q\<bar>" by (rule order_trans)
  then have "\<not> \<bar>of_int ?n - q\<bar> < 1 / 2" by simp
  with round_half_even_spec [of q]
  have half: "\<bar>of_int ?n - q\<bar> = 1 / 2" and "even ?n" by blast+
  then show "even ?n" by simp
  from le half have "(of_int \<bar>m - ?n\<bar> :: rat) \<le> of_int 1" by simp
  then have "\<bar>m - ?n\<bar> \<le> 1" by (simp only: of_int_le_iff)
  with \<open>1 \<le> \<bar>m - ?n\<bar>\<close> show "\<bar>m - ?n\<bar> = 1" by simp
qed

lemma rnd_tie_even:
  assumes r: "r / ulp r = of_int k" and ne: "r \<noteq> rnd x" and tie: "\<bar>r - x\<bar> = \<bar>rnd x - x\<bar>"
  obtains j where "rnd x = of_int (2 * j) * \<bar>r - rnd x\<bar>"
proof -
  let ?n = "round_half_even (x / ulp x)"
  from ne tie have "x \<noteq> 0" by auto
  moreover from tie finer_farther [of r x] have "\<not> (uexp r < uexp x \<and> x \<noteq> 0)" by auto
  ultimately have "uexp x \<le> uexp r" by simp
  then obtain m where "of_int k * ulp r = of_int m * ulp x" by (rule coarser_multiple)
  with r have m: "r = of_int m * ulp x" by (simp add: nonzero_divide_eq_eq)
  from tie have "\<bar>of_int m - x / ulp x\<bar> * ulp x = \<bar>of_int ?n - x / ulp x\<bar> * ulp x"
    by (simp only: m rnd_def abs_multiple_diff)
  then have "\<bar>of_int m - x / ulp x\<bar> = \<bar>of_int ?n - x / ulp x\<bar>" by simp
  moreover from ne have "m \<noteq> ?n" by (auto simp: m rnd_def)
  ultimately have "even ?n" and one: "\<bar>m - ?n\<bar> = 1" by (rule tie_integer)+
  then obtain j where j: "?n = 2 * j" by (auto elim: evenE)
  have "r - rnd x = of_int (m - ?n) * ulp x" by (simp add: m rnd_def algebra_simps)
  then have "\<bar>r - rnd x\<bar> = of_int \<bar>m - ?n\<bar> * ulp x" by (simp add: abs_mult abs_of_pos)
  with one have "\<bar>r - rnd x\<bar> = ulp x" by simp
  then have "rnd x = of_int (2 * j) * \<bar>r - rnd x\<bar>" by (simp add: rnd_def j)
  then show ?thesis by (rule that)
qed

lemma binary64_finite_nearest:
  assumes "binary64 x = Num y"
  shows "is_binary64 y \<and> \<bar>y - x\<bar> \<le> ulp x / 2 \<and>
         (\<forall>r. is_binary64 r \<longrightarrow>
            \<bar>y - x\<bar> \<le> \<bar>r - x\<bar> \<and>
            (\<bar>r - x\<bar> = \<bar>y - x\<bar> \<longrightarrow> r = y \<or> (\<exists>j. y = of_int (2 * j) * \<bar>r - y\<bar>)))"
proof -
  from assms have y: "y = rnd x" by (simp add: binary64_rnd)
  have "\<bar>y - x\<bar> \<le> \<bar>r - x\<bar> \<and>
        (\<bar>r - x\<bar> = \<bar>y - x\<bar> \<longrightarrow> r = y \<or> (\<exists>j. y = of_int (2 * j) * \<bar>r - y\<bar>))"
    if "is_binary64 r" for r
  proof -
    from that have "binary64 r = Num r"
      by (simp add: representable_is_binary64 [symmetric] representable_def)
    then obtain k where k: "r / ulp r = of_int k" by (rule representable_grid_point)
    then have "\<bar>y - x\<bar> \<le> \<bar>r - x\<bar>" unfolding y by (rule rnd_nearest)
    moreover have "\<exists>j. y = of_int (2 * j) * \<bar>r - y\<bar>" if "\<bar>r - x\<bar> = \<bar>y - x\<bar>" "r \<noteq> y"
    proof -
      from k that(2,1) obtain j where "rnd x = of_int (2 * j) * \<bar>r - rnd x\<bar>"
        unfolding y by (rule rnd_tie_even)
      then show ?thesis unfolding y by blast
    qed
    ultimately show ?thesis by blast
  qed
  moreover from assms have "is_binary64 y"
    by (simp add: representable_is_binary64 [symmetric] representable_binary64)
  ultimately show ?thesis using binary64_half_ulp [OF assms] by blast
qed


subsection \<open>Overflow\<close>

text \<open>
  The result is an infinity from half a spacing above the largest finite value
  on, \<open>2\<^sup>1\<^sup>0\<^sup>2\<^sup>4 - 2\<^sup>9\<^sup>7\<^sup>0\<close>: the tie between the largest finite value and \<open>2\<^sup>1\<^sup>0\<^sup>2\<^sup>4\<close>
  goes to the even one, which is out of range.
\<close>

lemma round_half_even_ge_iff:
  assumes "even n"
  shows "n \<le> round_half_even q \<longleftrightarrow> of_int n - 1 / 2 \<le> q"
proof
  assume "n \<le> round_half_even q"
  then have "(of_int n :: rat) \<le> of_int (round_half_even q)" by (simp only: of_int_le_iff)
  with round_half_even_error [of q] show "of_int n - 1 / 2 \<le> q" by linarith
next
  assume q: "of_int n - 1 / 2 \<le> q"
  show "n \<le> round_half_even q"
  proof (rule ccontr)
    assume "\<not> n \<le> round_half_even q"
    then have "round_half_even q \<le> n - 1" by simp
    then have le: "(of_int (round_half_even q) :: rat) \<le> of_int (n - 1)"
      by (simp only: of_int_le_iff)
    with round_half_even_error [of q] q
    have "(of_int (round_half_even q) :: rat) = of_int (n - 1)"
      and half: "\<bar>of_int (round_half_even q) - q\<bar> = 1 / 2" by simp_all
    then have "round_half_even q = n - 1" by (simp only: of_int_eq_iff)
    with round_half_even_spec [of q] half assms show False by simp
  qed
qed

lemma rnd_nonpos: "x \<le> 0 \<Longrightarrow> rnd x \<le> 0"
proof -
  assume "x \<le> 0"
  then have "x / ulp x \<le> 0" by (intro divide_nonpos_pos) simp_all
  with round_half_even_error [of "x / ulp x"]
  have "(of_int (round_half_even (x / ulp x)) :: rat) < 1" by linarith
  then have "round_half_even (x / ulp x) < 1" by simp
  then have "(of_int (round_half_even (x / ulp x)) :: rat) \<le> 0" by simp
  then show ?thesis unfolding rnd_def by (intro mult_nonpos_nonneg) (simp_all add: less_imp_le)
qed

lemma rnd_below_top_binade:
  assumes "x < 2 powi 1023"
  shows "rnd x < huge"
proof (cases "x \<le> 0")
  case True
  then have "rnd x \<le> 0" by (rule rnd_nonpos)
  then show ?thesis by (simp add: huge_def)
next
  case False
  with assms have "x \<noteq> 0" and "\<bar>x\<bar> < 2 powi (970 + 53)" by simp_all
  then have "uexp x \<le> 970" by (rule uexp_le) simp
  then have u: "ulp x \<le> 2 powi 970" by (simp only: ulp_def two_powi_le_iff)
  from round_ulp_bound [of x]
  have "(of_int \<bar>round_half_even (x / ulp x)\<bar> :: rat) \<le> of_int (2 ^ 53)"
    by (simp only: of_int_le_iff)
  then have "\<bar>rnd x\<bar> \<le> 2 ^ 53 * ulp x" by (simp add: rnd_def abs_mult abs_of_pos)
  also have "\<dots> \<le> 2 ^ 53 * 2 powi 970" using u by simp
  also have "\<dots> < huge" by (simp add: huge_def)
  finally show ?thesis by simp
qed

lemma rnd_top_binade:
  assumes "2 powi 1023 \<le> x" and "x < 2 powi 1024"
  shows "huge \<le> rnd x \<longleftrightarrow> 2 ^ 1024 - 2 ^ 970 \<le> x"
proof -
  from assms have "uexp x = max 1023 (- 1022) - 52" by (intro uexp_unique) simp_all
  then have u: "ulp x = 2 ^ 971" by (simp add: ulp_def)
  have "huge \<le> rnd x \<longleftrightarrow> (of_int (2 ^ 53) :: rat) \<le> of_int (round_half_even (x / 2 ^ 971))"
    by (simp add: rnd_def u huge_def)
  also have "\<dots> \<longleftrightarrow> 2 ^ 53 \<le> round_half_even (x / 2 ^ 971)" by (simp only: of_int_le_iff)
  also have "\<dots> \<longleftrightarrow> of_int (2 ^ 53) - 1 / 2 \<le> x / 2 ^ 971"
    by (rule round_half_even_ge_iff) simp
  also have "\<dots> \<longleftrightarrow> 2 ^ 1024 - 2 ^ 970 \<le> x" by (simp add: pos_le_divide_eq)
  finally show ?thesis .
qed

lemma rnd_above_top_binade:
  assumes "2 powi 1024 \<le> x"
  shows "huge \<le> rnd x"
proof -
  define e where "e = ilog2 \<bar>x\<bar>"
  from assms have pos: "0 < \<bar>x\<bar>" and x: "\<bar>x\<bar> = x"
    using two_powi_pos [of 1024] by linarith+
  from ilog2_bounds [OF pos] have b: "2 powi e \<le> x" "x < 2 powi (e + 1)"
    by (simp_all add: e_def x)
  from assms b(2) have "(2 :: rat) powi 1024 < 2 powi (e + 1)" by linarith
  then have "1024 < e + 1" by (simp only: two_powi_less_iff)
  then have e: "1024 \<le> e" by simp
  then have u: "ulp x = 2 powi (e - 52)" by (simp add: ulp_def uexp_def e_def)
  have p: "2 ^ 52 * ulp x = 2 powi e" by (simp add: u power_int_diff)
  with b(1) have "2 ^ 52 * ulp x \<le> x" by simp
  then have "of_int (2 ^ 52) \<le> x / ulp x" by (simp add: pos_le_divide_eq)
  then have "of_int (2 ^ 52) - 1 / 2 \<le> x / ulp x" by linarith
  then have "2 ^ 52 \<le> round_half_even (x / ulp x)" by (subst round_half_even_ge_iff) simp_all
  then have "(of_int (2 ^ 52) :: rat) \<le> of_int (round_half_even (x / ulp x))"
    by (simp only: of_int_le_iff)
  then have "2 ^ 52 * ulp x \<le> rnd x" by (simp add: rnd_def)
  moreover note p
  moreover from e have "huge \<le> 2 powi e" by (simp only: huge_powi two_powi_le_iff)
  ultimately show ?thesis by simp
qed

lemma rnd_overflow: "huge \<le> rnd x \<longleftrightarrow> 2 ^ 1024 - 2 ^ 970 \<le> x"
proof -
  consider "x < 2 powi 1023" | "2 powi 1023 \<le> x" "x < 2 powi 1024" | "2 powi 1024 \<le> x"
    by linarith
  then show ?thesis
  proof cases
    case 1
    then have "rnd x < huge" by (rule rnd_below_top_binade)
    with 1 show ?thesis by simp
  next
    case 2
    then show ?thesis by (rule rnd_top_binade)
  next
    case 3
    then have "huge \<le> rnd x" by (rule rnd_above_top_binade)
    with 3 show ?thesis by simp
  qed
qed

lemma rnd_minus: "rnd (- x) = - rnd x"
  by (simp add: rnd_def round_half_even_minus)

subsection \<open>Properties of rounding\<close>

text \<open>
  C22 (bounds): rounding is IEEE 754 round-to-nearest, ties to even. The result
  is an infinity exactly from \<open>2\<^sup>1\<^sup>0\<^sup>2\<^sup>4 - 2\<^sup>9\<^sup>7\<^sup>0\<close> on in magnitude and never \<open>NaN\<close>.
  A finite result is a binary64 value (an integer below \<open>2\<^sup>5\<^sup>3\<close> in magnitude
  times a power of two from \<open>2\<^sup>-\<^sup>1\<^sup>0\<^sup>7\<^sup>4\<close> to \<open>2\<^sup>9\<^sup>7\<^sup>1\<close>) at most half a unit in the last
  place away from the rational; no binary64 value is nearer, and one that is
  equally near is its neighbour, the result being the even multiple of their
  distance.
\<close>

theorem binary64_rounds_to_nearest:
  "(binary64 x = PosInf \<longleftrightarrow> 2 ^ 1024 - 2 ^ 970 \<le> x) \<and>
   (binary64 x = NegInf \<longleftrightarrow> x \<le> - (2 ^ 1024 - 2 ^ 970)) \<and>
   binary64 x \<noteq> NaN \<and>
   (\<forall>y. binary64 x = Num y \<longrightarrow>
      is_binary64 y \<and> \<bar>y - x\<bar> \<le> ulp x / 2 \<and>
      (\<forall>r. is_binary64 r \<longrightarrow>
         \<bar>y - x\<bar> \<le> \<bar>r - x\<bar> \<and>
         (\<bar>r - x\<bar> = \<bar>y - x\<bar> \<longrightarrow> r = y \<or> (\<exists>j. y = of_int (2 * j) * \<bar>r - y\<bar>))))"
proof -
  have b: "binary64 x = (if huge \<le> rnd x then PosInf else if huge \<le> rnd (- x) then NegInf
                         else Num (rnd x))"
    by (simp add: binary64_def rnd_def [symmetric] Let_def rnd_minus)
  have "\<not> (huge \<le> rnd x \<and> huge \<le> rnd (- x))" by (simp add: rnd_minus huge_def)
  then have "(binary64 x = PosInf \<longleftrightarrow> 2 ^ 1024 - 2 ^ 970 \<le> x) \<and>
    (binary64 x = NegInf \<longleftrightarrow> x \<le> - (2 ^ 1024 - 2 ^ 970)) \<and> binary64 x \<noteq> NaN"
    unfolding b by (auto simp: rnd_overflow)
  moreover have "is_binary64 y \<and> \<bar>y - x\<bar> \<le> ulp x / 2 \<and>
      (\<forall>r. is_binary64 r \<longrightarrow>
         \<bar>y - x\<bar> \<le> \<bar>r - x\<bar> \<and>
         (\<bar>r - x\<bar> = \<bar>y - x\<bar> \<longrightarrow> r = y \<or> (\<exists>j. y = of_int (2 * j) * \<bar>r - y\<bar>)))"
    if "binary64 x = Num y" for y
    using that by (rule binary64_finite_nearest)
  ultimately show ?thesis by blast
qed

theorem binary64_rounds_to_nearest_witness:
  "binary64 (1 / 100) = Num (5764607523034235 / 2 ^ 59) \<and>
   is_binary64 (5764607523034235 / 2 ^ 59) \<and>
   \<bar>5764607523034235 / 2 ^ 59 - 1 / 100 :: rat\<bar> \<le> ulp (1 / 100) / 2 \<and>
   \<not> (2 ^ 1024 - 2 ^ 970 \<le> (1 / 100 :: rat))"
proof -
  have b: "binary64 (1 / 100) = Num (5764607523034235 / 2 ^ 59)"
    by (simp add: binary64_normal [where e = "- 7"] round_half_even_def)
  with binary64_rounds_to_nearest [of "1 / 100"]
  have "is_binary64 (5764607523034235 / 2 ^ 59) \<and>
        \<bar>5764607523034235 / 2 ^ 59 - 1 / 100 :: rat\<bar> \<le> ulp (1 / 100) / 2" by blast
  moreover have "\<not> (2 ^ 1024 - 2 ^ 970 \<le> (1 / 100 :: rat))" by simp
  ultimately show ?thesis using b by blast
qed

end
