(* ===== verification/Ticket_Model.thy ===== *)
theory Ticket_Model
  imports JS_Number
begin

text \<open>
  The data of \<open>src/src/components/TicketList.tsx\<close>: the interfaces \<open>Ticket\<close> and
  \<open>Filters\<close>, the key type \<open>keyof Filters["stops"]\<close> with indexed access to the
  flags, and the initial value of the \<open>filters\<close> state. The key type is made an
  instance of \<open>enum\<close>, so that a statement about every key is a finite
  conjunction the simplifier can enumerate.
\<close>

record ticket =
  origin :: js_string
  origin_name :: js_string
  destination :: js_string
  destination_name :: js_string
  departure_date :: js_string
  departure_time :: js_string
  arrival_date :: js_string
  arrival_time :: js_string
  carrier :: js_string
  stops :: number
  price :: number

record stops_flags =
  all :: bool
  nonStop :: bool
  oneStop :: bool
  twoStops :: bool
  threeStops :: bool

record filters =
  stops :: stops_flags

text \<open>
  The five property names of \<open>Filters["stops"]\<close>. \<open>get_flag k fl\<close> is the indexed
  read \<open>fl[k]\<close>, \<open>set_flag k v fl\<close> the object \<open>{...fl, [k]: v}\<close>.
\<close>

datatype stops_key = K_all | K_nonStop | K_oneStop | K_twoStops | K_threeStops

fun get_flag :: "stops_key \<Rightarrow> stops_flags \<Rightarrow> bool" where
  "get_flag K_all fl = all fl"
| "get_flag K_nonStop fl = nonStop fl"
| "get_flag K_oneStop fl = oneStop fl"
| "get_flag K_twoStops fl = twoStops fl"
| "get_flag K_threeStops fl = threeStops fl"

fun set_flag :: "stops_key \<Rightarrow> bool \<Rightarrow> stops_flags \<Rightarrow> stops_flags" where
  "set_flag K_all v fl = fl\<lparr>all := v\<rparr>"
| "set_flag K_nonStop v fl = fl\<lparr>nonStop := v\<rparr>"
| "set_flag K_oneStop v fl = fl\<lparr>oneStop := v\<rparr>"
| "set_flag K_twoStops v fl = fl\<lparr>twoStops := v\<rparr>"
| "set_flag K_threeStops v fl = fl\<lparr>threeStops := v\<rparr>"

definition initial_filters :: filters where
  "initial_filters =
     \<lparr>stops = \<lparr>all = True, nonStop = False, oneStop = False,
                twoStops = False, threeStops = False\<rparr>\<rparr>"

instantiation stops_key :: enum
begin

definition enum_stops_key :: "stops_key list" where
  "enum_stops_key = [K_all, K_nonStop, K_oneStop, K_twoStops, K_threeStops]"

definition enum_all_stops_key :: "(stops_key \<Rightarrow> bool) \<Rightarrow> bool" where
  "enum_all_stops_key P \<longleftrightarrow>
     P K_all \<and> P K_nonStop \<and> P K_oneStop \<and> P K_twoStops \<and> P K_threeStops"

definition enum_ex_stops_key :: "(stops_key \<Rightarrow> bool) \<Rightarrow> bool" where
  "enum_ex_stops_key P \<longleftrightarrow>
     P K_all \<or> P K_nonStop \<or> P K_oneStop \<or> P K_twoStops \<or> P K_threeStops"

instance
proof
  have mem: "k \<in> set enum_class.enum" for k :: stops_key
    by (cases k) (simp_all add: enum_stops_key_def)
  then show "(UNIV :: stops_key set) = set enum_class.enum" by auto
  show "distinct (enum_class.enum :: stops_key list)"
    by (simp add: enum_stops_key_def)
  show "enum_class.enum_all P = Ball UNIV P" for P :: "stops_key \<Rightarrow> bool"
  proof -
    have "Ball UNIV P = (\<forall>k \<in> set enum_class.enum. P k)" using mem by auto
    then show ?thesis by (simp add: enum_all_stops_key_def enum_stops_key_def)
  qed
  show "enum_class.enum_ex P = Bex UNIV P" for P :: "stops_key \<Rightarrow> bool"
  proof -
    have "Bex UNIV P = (\<exists>k \<in> set enum_class.enum. P k)" using mem by auto
    then show ?thesis by (simp add: enum_ex_stops_key_def enum_stops_key_def)
  qed
qed

end

subsection \<open>Quantifying over the keys\<close>

lemma all_key:
  "(\<forall>k. P k) \<longleftrightarrow> P K_all \<and> P K_nonStop \<and> P K_oneStop \<and> P K_twoStops \<and> P K_threeStops"
  unfolding enum_all_stops_key_def [symmetric] by simp

lemma ex_key:
  "(\<exists>k. P k) \<longleftrightarrow> P K_all \<or> P K_nonStop \<or> P K_oneStop \<or> P K_twoStops \<or> P K_threeStops"
  unfolding enum_ex_stops_key_def [symmetric] by simp

lemma UNIV_stops_key: "UNIV = {K_all, K_nonStop, K_oneStop, K_twoStops, K_threeStops}"
  by (simp add: UNIV_enum enum_stops_key_def)

subsection \<open>Flag access\<close>

lemma get_set_flag [flag_simps, simp]:
  "get_flag k (set_flag k' v fl) = (if k = k' then v else get_flag k fl)"
  by (cases k; cases k') simp_all

lemma set_flag_idem [flag_simps, simp]: "set_flag k (get_flag k fl) fl = fl"
  by (cases k) simp_all

lemma set_set_flag [flag_simps, simp]: "set_flag k v (set_flag k w fl) = set_flag k v fl"
  by (cases k) simp_all

lemma set_flag_commute:
  "k \<noteq> k' \<Longrightarrow> set_flag k v (set_flag k' w fl) = set_flag k' w (set_flag k v fl)"
  by (cases k; cases k') simp_all

lemma get_flag_all_update [flag_simps, simp]:
  "get_flag k (fl\<lparr>all := v\<rparr>) = (if k = K_all then v else get_flag k fl)"
  by (cases k) simp_all

lemma flags_eqI: "(\<And>k. get_flag k a = get_flag k b) \<Longrightarrow> a = b"
proof -
  assume h: "\<And>k. get_flag k a = get_flag k b"
  from h [of K_all] h [of K_nonStop] h [of K_oneStop] h [of K_twoStops] h [of K_threeStops]
  show "a = b" by simp
qed

lemma filters_eqI:
  fixes a b :: filters
  shows "(\<And>k. get_flag k (stops a) = get_flag k (stops b)) \<Longrightarrow> a = b"
proof -
  assume "\<And>k. get_flag k (stops a) = get_flag k (stops b)"
  then have "stops a = stops b" by (rule flags_eqI)
  then show "a = b" by (cases a, cases b) simp
qed

end
