(* ===== verification/Filter_Selection.thy ===== *)
theory Filter_Selection
  imports Ticket_Model
begin

text \<open>
  The transition of the Filter Selection: the object \<open>newFilters\<close> that
  \<open>handleFilterChange\<close> builds from the current \<open>filters\<close> and the clicked key
  (\<open>TicketList.tsx\<close>, lines 68-90). The theory proves what each branch
  produces, the invariant that \<open>all\<close> excludes the specific flags, which
  selections can be reached from the initial one, and that the five booleans
  implement the two-mode selection (everything, or an explicit set of stop
  counts) under that invariant.
\<close>

definition newFilters :: "stops_key \<Rightarrow> filters \<Rightarrow> filters" where
  "newFilters filterType fs =
     (if filterType = K_all then
        \<lparr>stops = \<lparr>all = True, nonStop = False, oneStop = False,
                   twoStops = False, threeStops = False\<rparr>\<rparr>
      else
        \<lparr>stops = set_flag filterType (\<not> get_flag filterType (stops fs))
                   ((stops fs)\<lparr>all := False\<rparr>)\<rparr>)"

text \<open>A sequence of clicks, oldest first.\<close>

fun clicks :: "filters \<Rightarrow> stops_key list \<Rightarrow> filters" where
  "clicks fs [] = fs"
| "clicks fs (k # ks) = clicks (newFilters k fs) ks"

inductive selectable :: "filters \<Rightarrow> bool" where
  initial: "selectable initial_filters"
| click: "selectable fs \<Longrightarrow> selectable (newFilters k fs)"

text \<open>The invariant of the data model: \<open>all\<close> is set only when no other flag is.\<close>

definition exclusive :: "filters \<Rightarrow> bool" where
  "exclusive fs \<longleftrightarrow>
     (all (stops fs) \<longrightarrow>
        \<not> nonStop (stops fs) \<and> \<not> oneStop (stops fs) \<and>
        \<not> twoStops (stops fs) \<and> \<not> threeStops (stops fs))"

text \<open>
  The selection as the design intends it: one mode that shows everything, and
  one that shows an explicit set of specific keys.
\<close>

datatype mode = Everything | Only "stops_key set"

definition chosen :: "filters \<Rightarrow> stops_key set" where
  "chosen fs = {k. k \<noteq> K_all \<and> get_flag k (stops fs)}"

definition mode_of :: "filters \<Rightarrow> mode" where
  "mode_of fs = (if all (stops fs) then Everything else Only (chosen fs))"

fun toggle :: "stops_key \<Rightarrow> mode \<Rightarrow> mode" where
  "toggle k Everything = (if k = K_all then Everything else Only {k})"
| "toggle k (Only S) =
     (if k = K_all then Everything
      else if k \<in> S then Only (S - {k}) else Only (insert k S))"

fun toggles :: "mode \<Rightarrow> stops_key list \<Rightarrow> mode" where
  "toggles m [] = m"
| "toggles m (k # ks) = toggles (toggle k m) ks"

text \<open>
  A shortest click sequence that produces a given selection from the initial
  one: \<open>all\<close> itself, the set flags in turn, or a flag switched on and off again
  for the selection with nothing set.
\<close>

definition path_to :: "filters \<Rightarrow> stops_key list" where
  "path_to fs =
     (if all (stops fs) then []
      else if chosen fs = {} then [K_nonStop, K_nonStop]
      else filter (\<lambda>k. get_flag k (stops fs)) [K_nonStop, K_oneStop, K_twoStops, K_threeStops])"

subsection \<open>What a click produces\<close>

lemmas selection_defs [model_defs] = newFilters_def initial_filters_def

lemma newFilters_all [simp]: "newFilters K_all fs = initial_filters"
  by (simp add: selection_defs)

lemma stops_newFilters_specific:
  "k \<noteq> K_all \<Longrightarrow>
   stops (newFilters k fs) = set_flag k (\<not> get_flag k (stops fs)) ((stops fs)\<lparr>all := False\<rparr>)"
  by (simp add: newFilters_def)

lemma get_flag_newFilters:
  "k \<noteq> K_all \<Longrightarrow>
   get_flag k' (stops (newFilters k fs)) =
     (if k' = k then \<not> get_flag k (stops fs)
      else if k' = K_all then False
      else get_flag k' (stops fs))"
  by (simp add: stops_newFilters_specific)

lemma get_flag_initial [simp]: "get_flag k (stops initial_filters) \<longleftrightarrow> k = K_all"
  by (cases k) (simp_all add: initial_filters_def)

lemma all_initial [simp]: "all (stops initial_filters)"
  by (simp add: initial_filters_def)

lemma all_newFilters [simp]: "all (stops (newFilters k fs)) \<longleftrightarrow> k = K_all"
  by (cases k) (simp_all add: newFilters_def)

lemma newFilters_twice:
  "k \<noteq> K_all \<Longrightarrow> newFilters k (newFilters k fs) = fs\<lparr>stops := (stops fs)\<lparr>all := False\<rparr>\<rparr>"
  by (rule filters_eqI) (simp add: get_flag_newFilters)

lemma newFilters_commute:
  "k \<noteq> K_all \<Longrightarrow> k' \<noteq> K_all \<Longrightarrow>
   newFilters k (newFilters k' fs) = newFilters k' (newFilters k fs)"
  by (rule filters_eqI) (simp add: get_flag_newFilters)

subsection \<open>The invariant\<close>

lemma exclusive_iff: "exclusive fs \<longleftrightarrow> (all (stops fs) \<longrightarrow> chosen fs = {})"
  by (auto simp: exclusive_def chosen_def all_key)

lemma exclusive_initial [inv_intros, simp]: "exclusive initial_filters"
  by (simp add: exclusive_def initial_filters_def)

lemma exclusive_newFilters [inv_intros, simp]: "exclusive (newFilters k fs)"
proof (cases "k = K_all")
  case True
  then show ?thesis by simp
next
  case False
  then have "\<not> all (stops (newFilters k fs))" by simp
  then show ?thesis by (simp add: exclusive_def)
qed

lemma exclusive_clicks: "exclusive fs \<Longrightarrow> exclusive (clicks fs ks)"
  by (induction ks arbitrary: fs) simp_all

lemma selectable_exclusive: "selectable fs \<Longrightarrow> exclusive fs"
  by (induction rule: selectable.induct) simp_all

lemma selectable_clicks: "selectable fs \<Longrightarrow> selectable (clicks fs ks)"
  by (induction ks arbitrary: fs) (simp_all add: selectable.click)

lemma exclusive_all_initial: "exclusive fs \<Longrightarrow> all (stops fs) \<Longrightarrow> fs = initial_filters"
proof (rule filters_eqI)
  fix k
  assume "exclusive fs" and "all (stops fs)"
  then show "get_flag k (stops fs) = get_flag k (stops initial_filters)"
    by (cases k) (simp_all add: exclusive_def)
qed

subsection \<open>Every exclusive selection is reached by its path\<close>

lemma clicks_append: "clicks fs (ks @ ks') = clicks (clicks fs ks) ks'"
  by (induction ks arbitrary: fs) simp_all

lemma flags_cases:
  obtains a b c d e where
    "fs = \<lparr>stops = \<lparr>all = a, nonStop = b, oneStop = c, twoStops = d, threeStops = e\<rparr>\<rparr>"
proof -
  obtain fl where fs: "fs = \<lparr>stops = fl\<rparr>" by (cases fs) simp
  obtain a b c d e where
    "fl = \<lparr>all = a, nonStop = b, oneStop = c, twoStops = d, threeStops = e\<rparr>"
    by (cases fl) simp
  with fs that show thesis by simp
qed

lemma chosen_explicit:
  "chosen \<lparr>stops = \<lparr>all = a, nonStop = b, oneStop = c, twoStops = d, threeStops = e\<rparr>\<rparr> =
     (if b then {K_nonStop} else {}) \<union> (if c then {K_oneStop} else {}) \<union>
     (if d then {K_twoStops} else {}) \<union> (if e then {K_threeStops} else {})"
proof -
  have "k \<in> chosen \<lparr>stops = \<lparr>all = a, nonStop = b, oneStop = c, twoStops = d, threeStops = e\<rparr>\<rparr>
        \<longleftrightarrow> k \<in> (if b then {K_nonStop} else {}) \<union> (if c then {K_oneStop} else {}) \<union>
                (if d then {K_twoStops} else {}) \<union> (if e then {K_threeStops} else {})" for k
    by (cases k) (simp_all add: chosen_def)
  then show ?thesis by blast
qed

lemmas click_eval = selection_defs chosen_explicit

lemma clicks_path_to_specific:
  "clicks initial_filters
     (path_to \<lparr>stops = \<lparr>all = False, nonStop = b, oneStop = c, twoStops = d, threeStops = e\<rparr>\<rparr>)
   = \<lparr>stops = \<lparr>all = False, nonStop = b, oneStop = c, twoStops = d, threeStops = e\<rparr>\<rparr>"
  by (cases b; cases c; cases d; cases e)
     (simp_all add: path_to_def chosen_explicit selection_defs)

lemma clicks_path_to: "exclusive fs \<Longrightarrow> clicks initial_filters (path_to fs) = fs"
proof (cases "all (stops fs)")
  case True
  assume "exclusive fs"
  with True have "fs = initial_filters" by (rule exclusive_all_initial [rotated])
  then show ?thesis by (simp add: path_to_def initial_filters_def)
next
  case False
  obtain a b c d e where
    fs: "fs = \<lparr>stops = \<lparr>all = a, nonStop = b, oneStop = c, twoStops = d, threeStops = e\<rparr>\<rparr>"
    by (rule flags_cases)
  with False have "\<not> a" by simp
  with fs show ?thesis by (simp add: clicks_path_to_specific)
qed

lemma length_path_to: "length (path_to fs) \<le> 4"
proof -
  have "length (filter P [K_nonStop, K_oneStop, K_twoStops, K_threeStops]) \<le> 4" for P
    using length_filter_le [of P "[K_nonStop, K_oneStop, K_twoStops, K_threeStops]"] by simp
  then show ?thesis by (simp add: path_to_def)
qed

subsection \<open>The two-mode view\<close>

lemma chosen_initial [simp]: "chosen initial_filters = {}"
  by (simp add: chosen_def)

lemma chosen_newFilters:
  "k \<noteq> K_all \<Longrightarrow>
   chosen (newFilters k fs) =
     (if get_flag k (stops fs) then chosen fs - {k} else insert k (chosen fs))"
  by (auto simp: chosen_def get_flag_newFilters)

lemma chosen_newFilters_all [simp]: "chosen (newFilters K_all fs) = {}"
  by (simp add: chosen_def get_flag_newFilters)

lemma card_chosen_newFilters: "card (chosen (newFilters k fs)) \<le> Suc (card (chosen fs))"
proof (cases "k = K_all")
  case False
  have "card (chosen fs - {k}) \<le> card (chosen fs)"
    by (rule card_mono) simp_all
  with False show ?thesis
    by (simp add: chosen_newFilters card_insert_if)
qed simp

lemma card_chosen_clicks: "card (chosen (clicks fs ks)) \<le> card (chosen fs) + length ks"
proof (induction ks arbitrary: fs)
  case (Cons k ks)
  from Cons.IH [of "newFilters k fs"] card_chosen_newFilters [of k fs]
  show ?case by simp
qed simp

lemma mode_of_initial [simp]: "mode_of initial_filters = Everything"
  by (simp add: mode_of_def initial_filters_def)

lemma mode_of_newFilters:
  "exclusive fs \<Longrightarrow> mode_of (newFilters k fs) = toggle k (mode_of fs)"
proof (cases "k = K_all")
  case True
  then show ?thesis by (cases "mode_of fs") simp_all
next
  case False
  assume ex: "exclusive fs"
  show ?thesis
  proof (cases "all (stops fs)")
    case True
    with ex have "chosen fs = {}" by (simp add: exclusive_iff)
    moreover from this False have "\<not> get_flag k (stops fs)" by (auto simp: chosen_def)
    ultimately show ?thesis using True False by (simp add: mode_of_def chosen_newFilters)
  next
    case False2: False
    from False have "get_flag k (stops fs) \<longleftrightarrow> k \<in> chosen fs" by (simp add: chosen_def)
    with False False2 show ?thesis by (simp add: mode_of_def chosen_newFilters)
  qed
qed

subsection \<open>Properties of the Filter Selection\<close>

text \<open>
  C7 (functional): a click on a specific key \<open>k\<close> yields the selection in which
  \<open>all\<close> is off, \<open>k\<close> is negated and every other specific flag is as before.
\<close>

theorem newFilters_specific:
  assumes "k \<noteq> K_all"
  shows "get_flag k' (stops (newFilters k fs)) =
           (if k' = K_all then False
            else if k' = k then \<not> get_flag k (stops fs)
            else get_flag k' (stops fs))"
  using assms by (simp add: get_flag_newFilters)

theorem newFilters_specific_witness:
  "K_oneStop \<noteq> K_all \<and>
   stops (newFilters K_oneStop initial_filters) =
     \<lparr>all = False, nonStop = False, oneStop = True, twoStops = False, threeStops = False\<rparr>"
proof -
  have "get_flag k' (stops (newFilters K_oneStop initial_filters)) =
          get_flag k' \<lparr>all = False, nonStop = False, oneStop = True,
                        twoStops = False, threeStops = False\<rparr>" for k'
    using newFilters_specific [of K_oneStop k' initial_filters] by (cases k') simp_all
  then show ?thesis by (simp add: flags_eqI)
qed

text \<open>
  C3 (invariant): the selections that clicks can produce from the initial one
  are exactly those in which \<open>all\<close> excludes every specific flag. Each of them
  is produced by at most four clicks, and no sequence of clicks is shorter
  than the number of specific flags it leaves set, so the selection with all
  four specific flags needs four.
\<close>

theorem selectable_iff_exclusive:
  "(selectable fs \<longleftrightarrow> exclusive fs) \<and>
   (exclusive fs \<longleftrightarrow> (\<exists>ks. length ks \<le> 4 \<and> clicks initial_filters ks = fs)) \<and>
   card (chosen (clicks initial_filters ks)) \<le> length ks"
proof (intro conjI iffI)
  assume "selectable fs"
  then show "exclusive fs" by (rule selectable_exclusive)
next
  assume "exclusive fs"
  then have "clicks initial_filters (path_to fs) = fs" by (rule clicks_path_to)
  moreover have "selectable (clicks initial_filters (path_to fs))"
    by (rule selectable_clicks) (rule selectable.initial)
  ultimately show "selectable fs" by simp
next
  assume "exclusive fs"
  then have "clicks initial_filters (path_to fs) = fs" by (rule clicks_path_to)
  with length_path_to [of fs]
  show "\<exists>ks. length ks \<le> 4 \<and> clicks initial_filters ks = fs" by blast
next
  assume "\<exists>ks. length ks \<le> 4 \<and> clicks initial_filters ks = fs"
  then obtain ks where "clicks initial_filters ks = fs" by blast
  with exclusive_clicks [of initial_filters ks] show "exclusive fs" by simp
next
  show "card (chosen (clicks initial_filters ks)) \<le> length ks"
    using card_chosen_clicks [of initial_filters ks] by simp
qed

theorem selectable_iff_exclusive_witness:
  "exclusive \<lparr>stops = \<lparr>all = False, nonStop = False, oneStop = False,
                         twoStops = False, threeStops = False\<rparr>\<rparr> \<and>
   selectable \<lparr>stops = \<lparr>all = False, nonStop = False, oneStop = False,
                          twoStops = False, threeStops = False\<rparr>\<rparr> \<and>
   \<not> selectable \<lparr>stops = \<lparr>all = True, nonStop = True, oneStop = False,
                            twoStops = False, threeStops = False\<rparr>\<rparr> \<and>
   clicks initial_filters [K_nonStop, K_oneStop, K_twoStops]
     \<noteq> \<lparr>stops = \<lparr>all = False, nonStop = True, oneStop = True,
                    twoStops = True, threeStops = True\<rparr>\<rparr>"
proof -
  let ?none = "\<lparr>stops = \<lparr>all = False, nonStop = False, oneStop = False,
                           twoStops = False, threeStops = False\<rparr>\<rparr>"
  let ?both = "\<lparr>stops = \<lparr>all = True, nonStop = True, oneStop = False,
                           twoStops = False, threeStops = False\<rparr>\<rparr>"
  let ?four = "\<lparr>stops = \<lparr>all = False, nonStop = True, oneStop = True,
                           twoStops = True, threeStops = True\<rparr>\<rparr>"
  have none: "exclusive ?none" and both: "\<not> exclusive ?both"
    by (simp_all add: exclusive_def)
  from none have "selectable ?none"
    using selectable_iff_exclusive [of ?none "[]"] by blast
  moreover from both have "\<not> selectable ?both"
    using selectable_iff_exclusive [of ?both "[]"] by blast
  moreover have "card (chosen ?four) = 4" by (simp add: chosen_explicit)
  with selectable_iff_exclusive [of initial_filters "[K_nonStop, K_oneStop, K_twoStops]"]
  have "clicks initial_filters [K_nonStop, K_oneStop, K_twoStops] \<noteq> ?four" by auto
  ultimately show ?thesis using none by blast
qed

text \<open>
  C9 (refinement): on selections that satisfy the invariant, the five booleans
  implement the two-mode selection: the mode after a click is the toggle of
  the mode before it.
\<close>

theorem selection_refines_mode:
  assumes "exclusive fs"
  shows "mode_of (clicks fs ks) = toggles (mode_of fs) ks"
  using assms
proof (induction ks arbitrary: fs)
  case Nil
  show ?case by simp
next
  case (Cons k ks)
  have "mode_of (clicks (newFilters k fs) ks) = toggles (mode_of (newFilters k fs)) ks"
    by (rule Cons.IH) simp
  with Cons.prems show ?case by (simp add: mode_of_newFilters)
qed

theorem selection_refines_mode_witness:
  "exclusive initial_filters \<and>
   mode_of (clicks initial_filters [K_oneStop, K_twoStops, K_oneStop]) = Only {K_twoStops}"
proof -
  have "{K_twoStops, K_oneStop} - {K_oneStop} = {K_twoStops}" by auto
  then show ?thesis
    using selection_refines_mode [of initial_filters "[K_oneStop, K_twoStops, K_oneStop]"]
    by simp
qed

text \<open>
  Two clicks on the same specific key restore every specific
  flag and leave \<open>all\<close> off; the order of clicks on two specific keys does not
  matter.
\<close>

lemma click_twice_restores:
  assumes "k \<noteq> K_all" and "k' \<noteq> K_all"
  shows "newFilters k (newFilters k fs) = fs\<lparr>stops := (stops fs)\<lparr>all := False\<rparr>\<rparr> \<and>
         newFilters k (newFilters k' fs) = newFilters k' (newFilters k fs)"
  using assms by (simp add: newFilters_twice newFilters_commute)

end
