(* ===== verification/JS_Array.thy ===== *)
theory JS_Array
  imports Tickets_Prelude
begin

text \<open>
  The two array methods the component calls: \<open>Array.prototype.filter\<close>
  (\<open>tickets.filter\<close>, line 54 of \<open>TicketList.tsx\<close>) and \<open>Array.prototype.map\<close>
  (\<open>filteredTickets.map\<close>, line 155), as the loops of the language standard:
  an index \<open>k\<close> runs from 0 to the length, the callback receives the element and
  the index, and the result array \<open>A\<close> grows at its end. An array is a list; the
  arrays of the program have no holes. The theory proves that the loops end
  and that they compute what \<open>filter\<close> and \<open>map\<close> on lists compute, which is
  how the other theories write the two calls.
\<close>

function filter_from :: "('a \<Rightarrow> nat \<Rightarrow> bool) \<Rightarrow> 'a list \<Rightarrow> nat \<Rightarrow> 'a list \<Rightarrow> 'a list" where
  "filter_from callbackfn xs k A =
     (if k < length xs
      then filter_from callbackfn xs (Suc k) (if callbackfn (xs ! k) k then A @ [xs ! k] else A)
      else A)"
  by pat_completeness auto

termination
  by (relation "measure (\<lambda>(callbackfn, xs, k, A). length xs - k)") auto

definition array_filter :: "('a \<Rightarrow> nat \<Rightarrow> bool) \<Rightarrow> 'a list \<Rightarrow> 'a list" where
  "array_filter callbackfn xs = filter_from callbackfn xs 0 []"

function map_from :: "('a \<Rightarrow> nat \<Rightarrow> 'b) \<Rightarrow> 'a list \<Rightarrow> nat \<Rightarrow> 'b list \<Rightarrow> 'b list" where
  "map_from callbackfn xs k A =
     (if k < length xs
      then map_from callbackfn xs (Suc k) (A @ [callbackfn (xs ! k) k])
      else A)"
  by pat_completeness auto

termination
  by (relation "measure (\<lambda>(callbackfn, xs, k, A). length xs - k)") auto

definition array_map :: "('a \<Rightarrow> nat \<Rightarrow> 'b) \<Rightarrow> 'a list \<Rightarrow> 'b list" where
  "array_map callbackfn xs = map_from callbackfn xs 0 []"

declare filter_from.simps [simp del] map_from.simps [simp del]

subsection \<open>The loops from an index on\<close>

lemma filter_from_done [simp]: "length xs \<le> k \<Longrightarrow> filter_from f xs k A = A"
  by (subst filter_from.simps) simp

lemma map_from_done [simp]: "length xs \<le> k \<Longrightarrow> map_from f xs k A = A"
  by (subst map_from.simps) simp

lemma filter_from_drop:
  "filter_from f xs k A =
     A @ map fst (filter (\<lambda>(x, i). f x i) (zip (drop k xs) [k ..< length xs]))"
proof (induction f xs k A rule: filter_from.induct)
  case (1 f xs k A)
  show ?case
  proof (cases "k < length xs")
    case True
    then have d: "drop k xs = xs ! k # drop (Suc k) xs" by (simp add: Cons_nth_drop_Suc)
    from True have u: "[k ..< length xs] = k # [Suc k ..< length xs]" by (simp add: upt_rec)
    from True "1.IH" show ?thesis
      by (subst filter_from.simps) (simp add: d u)
  next
    case False
    then show ?thesis by simp
  qed
qed

lemma map_from_drop:
  "map_from f xs k A = A @ map (\<lambda>(x, i). f x i) (zip (drop k xs) [k ..< length xs])"
proof (induction f xs k A rule: map_from.induct)
  case (1 f xs k A)
  show ?case
  proof (cases "k < length xs")
    case True
    then have d: "drop k xs = xs ! k # drop (Suc k) xs" by (simp add: Cons_nth_drop_Suc)
    from True have u: "[k ..< length xs] = k # [Suc k ..< length xs]" by (simp add: upt_rec)
    from True "1.IH" show ?thesis
      by (subst map_from.simps) (simp add: d u)
  next
    case False
    then show ?thesis by simp
  qed
qed

lemma array_filter_zip:
  "array_filter f xs = map fst (filter (\<lambda>(x, i). f x i) (zip xs [0 ..< length xs]))"
  by (simp add: array_filter_def filter_from_drop)

lemma array_map_zip: "array_map f xs = map (\<lambda>(x, i). f x i) (zip xs [0 ..< length xs])"
  by (simp add: array_map_def map_from_drop)

lemma map_fst_filter_zip:
  "length ys = length xs \<Longrightarrow> map fst (filter (\<lambda>(x, i). p x) (zip xs ys)) = filter p xs"
  by (induction xs ys rule: list_induct2') simp_all

lemma array_filter_element [simp]: "array_filter (\<lambda>x i. p x) xs = filter p xs"
  by (simp add: array_filter_zip map_fst_filter_zip)

lemma array_map_enumerate:
  "array_map f xs = map (\<lambda>(i, x). f x i) (enumerate 0 xs)"
proof -
  have "zip xs [0 ..< length xs] = map (\<lambda>(i, x). (x, i)) (enumerate 0 xs)"
    by (simp add: enumerate_eq_zip zip_map2 [symmetric] zip_commute [of xs] split_def comp_def)
  then show ?thesis by (simp add: array_map_zip split_def comp_def)
qed

lemma array_map_element [simp]: "array_map (\<lambda>x i. g x) xs = map g xs"
proof -
  have "map (\<lambda>(x, i). g x) (zip xs ys) = map g xs" if "length ys = length xs" for ys :: "nat list"
    using that by (induction xs ys rule: list_induct2') simp_all
  then show ?thesis by (simp add: array_map_zip)
qed

lemma length_array_map [simp]: "length (array_map f xs) = length xs"
  by (simp add: array_map_zip)

lemma nth_array_map: "i < length xs \<Longrightarrow> array_map f xs ! i = f (xs ! i) i"
  by (simp add: array_map_zip)

end
