(* ===== verification/Filter_Engine.thy ===== *)
theory Filter_Engine
  imports Filter_Selection JS_Array
begin

text \<open>
  The Filter Engine: the predicate passed to \<open>tickets.filter\<close> and the list
  \<open>filtered\<close> it yields (\<open>TicketList.tsx\<close>, lines 54-61), the call being the
  loop \<open>array_filter\<close> of \<open>JS_Array\<close>. Both are stated
  over any extension of the \<open>ticket\<close> record, since only the field \<open>stops\<close> is
  read. The theory characterises the predicate, relates \<open>filtered\<close> to the
  contract of the specification (the tickets whose stop count is among the
  selected ones, in their original order), and evaluates the specification's
  scenario.
\<close>

definition matches :: "filters \<Rightarrow> 'a ticket_scheme \<Rightarrow> bool" where
  "matches fs t =
     (if all (stops fs) then True
      else if nonStop (stops fs) \<and> strict_eq (ticket.stops t) (lit 0) then True
      else if oneStop (stops fs) \<and> strict_eq (ticket.stops t) (lit 1) then True
      else if twoStops (stops fs) \<and> strict_eq (ticket.stops t) (lit 2) then True
      else if threeStops (stops fs) \<and> strict_eq (ticket.stops t) (lit 3) then True
      else False)"

definition filtered :: "'a ticket_scheme list \<Rightarrow> filters \<Rightarrow> 'a ticket_scheme list" where
  "filtered tickets fs = array_filter (\<lambda>ticket index. matches fs ticket) tickets"

text \<open>
  The contract. A specific key stands for a stop count; a selection admits
  the counts of its set keys; the stop count of a ticket is the natural number
  its \<open>stops\<close> field holds, if it holds one (a fraction, a negative value,
  an infinity or \<open>NaN\<close> is none).
\<close>

fun key_stops :: "stops_key \<Rightarrow> nat option" where
  "key_stops K_all = None"
| "key_stops K_nonStop = Some 0"
| "key_stops K_oneStop = Some 1"
| "key_stops K_twoStops = Some 2"
| "key_stops K_threeStops = Some 3"

definition admitted :: "filters \<Rightarrow> nat set" where
  "admitted fs = {n. \<exists>k. get_flag k (stops fs) \<and> key_stops k = Some n}"

fun stop_count :: "number \<Rightarrow> nat option" where
  "stop_count (Num r) = (if 0 \<le> r \<and> of_int \<lfloor>r\<rfloor> = r then Some (nat \<lfloor>r\<rfloor>) else None)"
| "stop_count _ = None"

definition visible :: "filters \<Rightarrow> 'a ticket_scheme \<Rightarrow> bool" where
  "visible fs t \<longleftrightarrow>
     all (stops fs) \<or> (\<exists>n \<in> admitted fs. stop_count (ticket.stops t) = Some n)"

text \<open>A ticket with a given carrier, stop count and price, for the scenarios.\<close>

definition flight :: "js_string \<Rightarrow> nat \<Rightarrow> nat \<Rightarrow> ticket" where
  "flight c n p =
     \<lparr>origin = ''VVO'', origin_name = ''Vladivostok'',
      destination = ''TLV'', destination_name = ''Tel Aviv'',
      departure_date = ''12.05.18'', departure_time = ''16:20'',
      arrival_date = ''12.05.18'', arrival_time = ''22:10'',
      carrier = c, stops = Num (of_nat n), price = Num (of_nat p)\<rparr>"

subsection \<open>The call of the array method\<close>

lemma filtered_filter: "filtered ts fs = filter (matches fs) ts"
  by (simp add: filtered_def)

subsection \<open>Stop counts and strict equality\<close>

lemma stop_count_of_nat [simp]: "stop_count (Num (of_nat n)) = Some n"
proof -
  have "\<exists>m. (of_nat n :: rat) = of_int m" by (rule exI [of _ "int n"]) simp
  then show ?thesis by simp
qed

lemma stop_count_Some: "stop_count x = Some n \<longleftrightarrow> x = Num (of_nat n)"
proof (cases x)
  case (Num r)
  show ?thesis
  proof
    assume "stop_count x = Some n"
    with Num obtain m where "0 \<le> r" and m: "r = of_int m" and "nat \<lfloor>r\<rfloor> = n"
      by (auto split: if_splits)
    then have "0 \<le> m" and "n = nat m" by simp_all
    with m have "r = of_nat n" by simp
    with Num show "x = Num (of_nat n)" by simp
  next
    assume "x = Num (of_nat n)"
    then show "stop_count x = Some n" by simp
  qed
qed simp_all

lemma stop_count_numerals [simp]:
  "stop_count (Num 0) = Some 0"
  "stop_count (Num 1) = Some 1"
  "stop_count (Num (numeral w)) = Some (numeral w)"
  using stop_count_of_nat [of 0] stop_count_of_nat [of 1] stop_count_of_nat [of "numeral w"]
  by (simp_all del: stop_count.simps)

lemmas stop_count_Num = stop_count.simps(1)

declare stop_count.simps(1) [simp del]

lemma key_stops_None [simp]: "key_stops k = None \<longleftrightarrow> k = K_all"
  by (cases k) simp_all

lemma strict_eq_of_nat: "strict_eq x (Num (of_nat n)) \<longleftrightarrow> stop_count x = Some n"
  unfolding stop_count_Some by (cases x) auto

lemma strict_eq_lits:
  "strict_eq x (lit 0) \<longleftrightarrow> stop_count x = Some 0"
  "strict_eq x (lit 1) \<longleftrightarrow> stop_count x = Some 1"
  "strict_eq x (lit 2) \<longleftrightarrow> stop_count x = Some 2"
  "strict_eq x (lit 3) \<longleftrightarrow> stop_count x = Some 3"
  using strict_eq_of_nat [of x 0] strict_eq_of_nat [of x 1]
        strict_eq_of_nat [of x 2] strict_eq_of_nat [of x 3]
  by (simp_all add: lit_small)

subsection \<open>The predicate\<close>

lemma admitted_iff:
  "n \<in> admitted fs \<longleftrightarrow>
     (n = 0 \<and> nonStop (stops fs)) \<or> (n = 1 \<and> oneStop (stops fs)) \<or>
     (n = 2 \<and> twoStops (stops fs)) \<or> (n = 3 \<and> threeStops (stops fs))"
  by (auto simp: admitted_def ex_key)

lemma bex_admitted:
  "(\<exists>n \<in> admitted fs. P n) \<longleftrightarrow>
     (nonStop (stops fs) \<and> P 0) \<or> (oneStop (stops fs) \<and> P 1) \<or>
     (twoStops (stops fs) \<and> P 2) \<or> (threeStops (stops fs) \<and> P 3)"
  unfolding Bex_def admitted_iff by blast

lemma matches_iff:
  "matches fs t \<longleftrightarrow>
     all (stops fs) \<or>
     (nonStop (stops fs) \<and> stop_count (ticket.stops t) = Some 0) \<or>
     (oneStop (stops fs) \<and> stop_count (ticket.stops t) = Some 1) \<or>
     (twoStops (stops fs) \<and> stop_count (ticket.stops t) = Some 2) \<or>
     (threeStops (stops fs) \<and> stop_count (ticket.stops t) = Some 3)"
  unfolding matches_def strict_eq_lits by simp

lemma matches_visible: "matches fs t \<longleftrightarrow> visible fs t"
  unfolding matches_iff visible_def bex_admitted ..

lemma matches_all [simp]: "all (stops fs) \<Longrightarrow> matches fs t"
  by (simp add: matches_def)

lemma admitted_subset: "admitted fs \<subseteq> {0, 1, 2, 3}"
  by (auto simp: admitted_iff)

lemma admitted_chosen: "admitted fs = {n. \<exists>k \<in> chosen fs. key_stops k = Some n}"
proof -
  have "get_flag k (stops fs) \<and> key_stops k = Some n \<longleftrightarrow>
        k \<in> chosen fs \<and> key_stops k = Some n" for k n
    by (cases k) (simp_all add: chosen_def)
  then show ?thesis by (auto simp: admitted_def)
qed

lemma admitted_empty [simp]: "chosen fs = {} \<Longrightarrow> admitted fs = {}"
  by (simp add: admitted_chosen)

lemma admitted_single:
  "k \<noteq> K_all \<Longrightarrow> admitted (newFilters k initial_filters) = set_option (key_stops k)"
  by (cases k) (auto simp: admitted_iff selection_defs)

lemma matches_single:
  "k \<noteq> K_all \<Longrightarrow>
   matches (newFilters k initial_filters) t \<longleftrightarrow> key_stops k = stop_count (ticket.stops t) "
  by (cases k) (auto simp: matches_visible visible_def admitted_single)

lemma chosen_counts:
  "(\<exists>k \<in> chosen fs. key_stops k = stop_count x) \<longleftrightarrow>
   (\<exists>n \<in> admitted fs. stop_count x = Some n)" (is "?L \<longleftrightarrow> ?R")
proof
  assume ?L
  then obtain k where k: "k \<in> chosen fs" "key_stops k = stop_count x" by blast
  from k(1) have "k \<noteq> K_all" by (simp add: chosen_def)
  then obtain n where "key_stops k = Some n" by (cases k) simp_all
  with k have "n \<in> admitted fs" and "stop_count x = Some n"
    by (auto simp: admitted_chosen)
  then show ?R by blast
next
  assume ?R
  then show ?L by (auto simp: admitted_chosen)
qed

lemma matches_chosen:
  assumes "\<not> all (stops fs)"
  shows "matches fs t \<longleftrightarrow> (\<exists>k \<in> chosen fs. matches (newFilters k initial_filters) t)"
proof -
  have "(\<exists>k \<in> chosen fs. matches (newFilters k initial_filters) t) \<longleftrightarrow>
        (\<exists>k \<in> chosen fs. key_stops k = stop_count (ticket.stops t))"
    by (rule bex_cong) (simp_all add: matches_single chosen_def)
  with assms show ?thesis by (simp add: chosen_counts matches_visible visible_def)
qed

subsection \<open>The filtered list\<close>

lemma filtered_visible: "filtered ts fs = filter (visible fs) ts"
  by (simp add: filtered_filter matches_visible [abs_def])

lemma set_filtered: "set (filtered ts fs) = {t \<in> set ts. visible fs t}"
  by (simp add: filtered_visible)

lemma filtered_Nil [simp]: "filtered [] fs = []"
  by (simp add: filtered_filter)

lemma filtered_Cons:
  "filtered (t # ts) fs = (if matches fs t then t # filtered ts fs else filtered ts fs)"
  by (simp add: filtered_filter)

lemma filtered_append: "filtered (ts @ us) fs = filtered ts fs @ filtered us fs"
  by (simp add: filtered_filter)

lemma filtered_idem: "filtered (filtered ts fs) fs = filtered ts fs"
  by (simp add: filtered_filter)

lemma length_filtered: "length (filtered ts fs) \<le> length ts"
  by (simp add: filtered_filter)

lemma filtered_all_flag: "all (stops fs) \<Longrightarrow> filtered ts fs = ts"
  by (simp add: filtered_filter)

lemma filtered_specific:
  "\<not> all (stops fs) \<Longrightarrow>
   filtered ts fs = filter (\<lambda>t. \<exists>n \<in> admitted fs. stop_count (ticket.stops t) = Some n) ts"
  by (simp add: filtered_visible visible_def [abs_def])

lemma filtered_single_key:
  "k \<noteq> K_all \<Longrightarrow>
   filtered ts (newFilters k initial_filters) =
     filter (\<lambda>t. stop_count (ticket.stops t) = key_stops k) ts"
  by (auto simp: filtered_filter matches_single intro: filter_cong)

lemma subseq_filtered: "subseq (filtered ts fs) ts"
  by (simp add: filtered_filter)

lemma flight_fields [simp]:
  "ticket.stops (flight c n p) = Num (of_nat n)"
  "price (flight c n p) = Num (of_nat p)"
  "carrier (flight c n p) = c"
  by (simp_all add: flight_def)

lemma flight_eq [simp]: "flight c n p = flight c' n' p' \<longleftrightarrow> c = c' \<and> n = n' \<and> p = p'"
  by (auto simp: flight_def)

subsection \<open>Properties of the Filter Engine\<close>

text \<open>
  C1 (refinement): the predicate chain of the code implements the contract of
  the Filter Engine. With \<open>all\<close> set the result is the whole collection;
  otherwise it is the collection restricted, in its original order, to the
  tickets whose stop count is one of the counts the set flags stand for.
\<close>

theorem filtered_contract:
  "filtered ts fs =
     (if all (stops fs) then ts
      else filter (\<lambda>t. \<exists>n \<in> admitted fs. stop_count (ticket.stops t) = Some n) ts)"
  by (simp add: filtered_all_flag filtered_specific)

theorem filtered_contract_witness:
  "filtered [flight ''TK'' 3 12400, flight ''S7'' 1 13100, flight ''SU'' 0 15300,
             flight ''TK'' 2 11000, flight ''BA'' 2 13400, flight ''BA'' 4 9000]
            (clicks initial_filters [K_twoStops, K_threeStops])
   = [flight ''TK'' 3 12400, flight ''TK'' 2 11000, flight ''BA'' 2 13400]"
proof -
  have "admitted (clicks initial_filters [K_twoStops, K_threeStops]) = {2, 3}"
    by (auto simp: admitted_iff selection_defs)
  moreover have "\<not> all (stops (clicks initial_filters [K_twoStops, K_threeStops]))"
    by simp
  ultimately show ?thesis
    using filtered_contract
      [of "[flight ''TK'' 3 12400, flight ''S7'' 1 13100, flight ''SU'' 0 15300,
            flight ''TK'' 2 11000, flight ''BA'' 2 13400, flight ''BA'' 4 9000]"
          "clicks initial_filters [K_twoStops, K_threeStops]"]
    by simp
qed

text \<open>
  C25 (functional): whenever \<open>all\<close> is set, whatever the other flags are,
  filtering returns the input collection unchanged.
\<close>

theorem filtered_all:
  assumes "all (stops fs)"
  shows "filtered ts fs = ts"
  using assms by (rule filtered_all_flag)

theorem filtered_all_witness:
  "all (stops initial_filters) \<and>
   filtered [flight ''TK'' 3 12400, flight ''BA'' 7 9000] initial_filters
     = [flight ''TK'' 3 12400, flight ''BA'' 7 9000]"
  using filtered_all [of initial_filters "[flight ''TK'' 3 12400, flight ''BA'' 7 9000]"]
  by simp

text \<open>
  C26 (functional): the selection with every flag off, \<open>all\<close> included, filters
  every collection to the empty list; there is no fallback to \<open>all\<close>.
\<close>

theorem filtered_nothing_selected:
  assumes "\<not> all (stops fs)" and "chosen fs = {}"
  shows "filtered ts fs = []"
  using assms by (simp add: filtered_specific)

theorem filtered_nothing_selected_witness:
  "\<not> all (stops (clicks initial_filters [K_oneStop, K_oneStop])) \<and>
   chosen (clicks initial_filters [K_oneStop, K_oneStop]) = {} \<and>
   filtered [flight ''TK'' 3 12400, flight ''S7'' 1 13100]
            (clicks initial_filters [K_oneStop, K_oneStop]) = []"
proof -
  have c: "chosen (clicks initial_filters [K_oneStop, K_oneStop]) = {}"
    by (simp add: click_eval)
  have a: "\<not> all (stops (clicks initial_filters [K_oneStop, K_oneStop]))" by simp
  have "filtered [flight ''TK'' 3 12400, flight ''S7'' 1 13100]
          (clicks initial_filters [K_oneStop, K_oneStop]) = []"
    using a c by (rule filtered_nothing_selected)
  with a c show ?thesis by blast
qed

text \<open>
  C24 (functional): with exactly one specific flag set, filtering returns
  exactly the tickets whose stop count is the value of that flag.
\<close>

theorem filtered_single:
  assumes "\<not> all (stops fs)" and "chosen fs = {k}"
  shows "filtered ts fs = filter (\<lambda>t. stop_count (ticket.stops t) = key_stops k) ts"
proof -
  from assms(2) have "k \<noteq> K_all" by (auto simp: chosen_def)
  then obtain n where n: "key_stops k = Some n" by (cases k) simp_all
  with assms(2) have "admitted fs = {n}" by (auto simp: admitted_chosen)
  with assms(1) n show ?thesis by (simp add: filtered_specific)
qed

theorem filtered_single_witness:
  "\<not> all (stops (newFilters K_nonStop initial_filters)) \<and>
   chosen (newFilters K_nonStop initial_filters) = {K_nonStop} \<and>
   filtered [flight ''TK'' 3 12400, flight ''SU'' 0 15300, flight ''S7'' 0 14250]
            (newFilters K_nonStop initial_filters)
     = [flight ''SU'' 0 15300, flight ''S7'' 0 14250]"
proof -
  let ?ts = "[flight ''TK'' 3 12400, flight ''SU'' 0 15300, flight ''S7'' 0 14250]"
  have c: "chosen (newFilters K_nonStop initial_filters) = {K_nonStop}"
    by (simp add: click_eval)
  have a: "\<not> all (stops (newFilters K_nonStop initial_filters))" by simp
  have "filtered ?ts (newFilters K_nonStop initial_filters) =
          filter (\<lambda>t. stop_count (ticket.stops t) = key_stops K_nonStop) ?ts"
    using a c by (rule filtered_single)
  also have "\<dots> = [flight ''SU'' 0 15300, flight ''S7'' 0 14250]" by simp
  finally show ?thesis using a c by simp
qed

text \<open>
  C23 (functional): with several specific flags set, a ticket is kept exactly
  when the selection of one of the set flags alone would keep it, so the result
  is the union of the single-flag results, in the order of the input.
\<close>

theorem filtered_union:
  assumes "\<not> all (stops fs)"
  shows "filtered ts fs =
           filter (\<lambda>t. \<exists>k \<in> chosen fs. t \<in> set (filtered ts (newFilters k initial_filters))) ts"
  unfolding filtered_filter [of ts fs]
proof (rule filter_cong [OF refl])
  fix t
  assume "t \<in> set ts"
  then show "matches fs t \<longleftrightarrow>
      (\<exists>k \<in> chosen fs. t \<in> set (filtered ts (newFilters k initial_filters)))"
    by (simp add: matches_chosen [OF assms] filtered_filter)
qed

theorem filtered_union_witness:
  "\<not> all (stops (clicks initial_filters [K_nonStop, K_twoStops])) \<and>
   set (filtered [flight ''TK'' 3 12400, flight ''SU'' 0 15300, flight ''BA'' 2 13400]
                 (clicks initial_filters [K_nonStop, K_twoStops]))
   = set (filtered [flight ''TK'' 3 12400, flight ''SU'' 0 15300, flight ''BA'' 2 13400]
                   (newFilters K_nonStop initial_filters)) \<union>
     set (filtered [flight ''TK'' 3 12400, flight ''SU'' 0 15300, flight ''BA'' 2 13400]
                   (newFilters K_twoStops initial_filters))"
proof -
  let ?ts = "[flight ''TK'' 3 12400, flight ''SU'' 0 15300, flight ''BA'' 2 13400]"
  let ?fs = "clicks initial_filters [K_nonStop, K_twoStops]"
  have c: "chosen ?fs = {K_nonStop, K_twoStops}"
    by (simp add: click_eval insert_commute)
  have a: "\<not> all (stops ?fs)" by simp
  have "filtered ?ts ?fs =
          filter (\<lambda>t. \<exists>k \<in> chosen ?fs. t \<in> set (filtered ?ts (newFilters k initial_filters))) ?ts"
    using a by (rule filtered_union)
  then have "set (filtered ?ts ?fs) =
      {t \<in> set ?ts. \<exists>k \<in> {K_nonStop, K_twoStops}.
         t \<in> set (filtered ?ts (newFilters k initial_filters))}"
    unfolding c by (metis set_filter)
  also have "\<dots> = set (filtered ?ts (newFilters K_nonStop initial_filters)) \<union>
                   set (filtered ?ts (newFilters K_twoStops initial_filters))"
    using subseq_filtered by (auto simp: set_filtered)
  finally show ?thesis using a by blast
qed

text \<open>
  C28 (safety): unless \<open>all\<close> is set, a ticket whose \<open>stops\<close> field is not one of
  0, 1, 2, 3 (four or more stops, a fraction, \<open>NaN\<close>) is never shown, whatever
  the specific flags are.
\<close>

theorem out_of_range_hidden:
  assumes "\<not> all (stops fs)" and "stop_count (ticket.stops t) \<notin> {Some 0, Some 1, Some 2, Some 3}"
  shows "t \<notin> set (filtered ts fs)"
proof
  assume "t \<in> set (filtered ts fs)"
  with assms(1) obtain n where "n \<in> admitted fs" and "stop_count (ticket.stops t) = Some n"
    by (auto simp: set_filtered visible_def)
  with assms(2) admitted_subset [of fs] show False by auto
qed

theorem out_of_range_hidden_witness:
  "\<not> all (stops (clicks initial_filters [K_nonStop, K_oneStop, K_twoStops, K_threeStops])) \<and>
   stop_count (ticket.stops (flight ''BA'' 4 9000)) \<notin> {Some 0, Some 1, Some 2, Some 3} \<and>
   flight ''BA'' 4 9000 \<notin>
     set (filtered [flight ''BA'' 4 9000, flight ''SU'' 0 15300]
           (clicks initial_filters [K_nonStop, K_oneStop, K_twoStops, K_threeStops]))"
proof -
  have a: "\<not> all (stops (clicks initial_filters [K_nonStop, K_oneStop, K_twoStops, K_threeStops]))"
    by simp
  have b: "stop_count (ticket.stops (flight ''BA'' 4 9000)) \<notin> {Some 0, Some 1, Some 2, Some 3}"
    by simp
  from out_of_range_hidden [OF a b] a b show ?thesis by blast
qed

text \<open>
  The scenario of the specification: five tickets with stops 0, 1, 1, 2, 3 and
  the selection in which only \<open>oneStop\<close> is set give exactly the two tickets
  with one stop, in their original relative order.
\<close>

lemma scenario_one_stop:
  "filtered [flight ''A'' 0 100, flight ''B'' 1 200, flight ''C'' 1 300,
             flight ''D'' 2 400, flight ''E'' 3 500]
            \<lparr>stops = \<lparr>all = False, nonStop = False, oneStop = True,
                       twoStops = False, threeStops = False\<rparr>\<rparr>
   = [flight ''B'' 1 200, flight ''C'' 1 300]"
  by (simp add: filtered_filter matches_def strict_eq_lits)

end
