(* ===== verification/JS_Format.thy ===== *)
theory JS_Format
  imports JS_Number
begin

text \<open>
  Printing numbers: \<open>Number.prototype.toString\<close>, which renders the stop
  count in the label of a card, and \<open>Number.prototype.toFixed\<close>, which
  \<open>convertCurrency\<close> calls with two fraction digits and which falls back on
  \<open>toString\<close> for magnitudes of \<open>10\<^sup>2\<^sup>1\<close> and more. A reader of decimals states
  what the printed text denotes; the main result is that reading back what
  \<open>toString\<close> prints gives the number.
\<close>

subsection \<open>Decimal digits\<close>

definition digit_char :: "nat \<Rightarrow> char" where
  "digit_char d = char_of (48 + d)"

fun digits :: "nat \<Rightarrow> string" where
  "digits n = (if n < 10 then [digit_char n] else digits (n div 10) @ [digit_char (n mod 10)])"

declare digits.simps [simp del]

subsection \<open>Number.prototype.toString\<close>

text \<open>
  The decimal rendering of a finite \<open>a > 0\<close> is built from integers \<open>n\<close>, \<open>k\<close>
  and \<open>s\<close> with \<open>10\<^sup>k\<^sup>-\<^sup>1 \<le> s < 10\<^sup>k\<close> such that \<open>s \<times> 10\<^sup>n\<^sup>-\<^sup>k\<close> rounds to \<open>a\<close> and
  \<open>k\<close> is as small as possible; among several \<open>s\<close> the one nearest to \<open>a\<close> is
  taken, the even one on a tie.

  \<open>dec_exp a\<close> is the \<open>n\<close> of \<open>a\<close> itself, with \<open>10\<^sup>n\<^sup>-\<^sup>1 \<le> a < 10\<^sup>n\<close>; \<open>grid k a\<close> is
  the distance of the decimals with \<open>k\<close> digits at that magnitude,
  \<open>neighbours k a\<close> the two of them around \<open>a\<close>, \<open>candidates k a\<close> those that round
  to \<open>a\<close>. \<open>shortest\<close> tries \<open>k = 1, 2, \<dots>\<close> with one unit of fuel each and takes
  the nearest neighbour when the fuel is used up, which is at \<open>k = 17\<close>. It
  returns \<open>s\<close> as a multiple of the grid, so \<open>s = 10\<^sup>k\<close> when the upper neighbour
  is the next power of ten; \<open>to_string_pos\<close> removes the trailing zeros and
  derives \<open>n\<close> from the number of digits.
\<close>

function lead_exp :: "rat \<Rightarrow> int" where
  "lead_exp a = (if a \<le> 0 \<or> 1 / 10 \<le> a then 0 else lead_exp (10 * a) - 1)"
  by pat_completeness auto

termination
proof (relation "measure (\<lambda>a. nat \<lceil>1 / a\<rceil>)")
  show "wf (measure (\<lambda>a :: rat. nat \<lceil>1 / a\<rceil>))" by simp
next
  fix a :: rat
  assume "\<not> (a \<le> 0 \<or> 1 / 10 \<le> a)"
  then have a: "0 < a" "a < 1 / 10" by simp_all
  then have "10 < 1 / a" by (simp add: field_simps)
  then have "1 / (10 * a) + 1 < 1 / a" by (simp add: field_simps)
  moreover have "of_int \<lceil>1 / (10 * a)\<rceil> < 1 / (10 * a) + 1" by linarith
  ultimately have "of_int \<lceil>1 / (10 * a)\<rceil> < 1 / a" by linarith
  then have "\<lceil>1 / (10 * a)\<rceil> < \<lceil>1 / a\<rceil>" by linarith
  moreover have "0 < \<lceil>1 / a\<rceil>" using a by (simp add: field_simps)
  ultimately show "(10 * a, a) \<in> measure (\<lambda>a. nat \<lceil>1 / a\<rceil>)" by simp
qed

declare lead_exp.simps [simp del]

definition dec_exp :: "rat \<Rightarrow> int" where
  "dec_exp a = (if 1 \<le> a then int (length (digits (nat \<lfloor>a\<rfloor>))) else lead_exp a)"

definition grid :: "nat \<Rightarrow> rat \<Rightarrow> rat" where
  "grid k a = 10 powi (dec_exp a - int k)"

definition neighbours :: "nat \<Rightarrow> rat \<Rightarrow> rat list" where
  "neighbours k a = (let g = grid k a; lo = of_int \<lfloor>a / g\<rfloor> * g in [lo, lo + g])"

definition candidates :: "nat \<Rightarrow> rat \<Rightarrow> rat list" where
  "candidates k a = filter (\<lambda>v. binary64 v = Num a) (neighbours k a)"

definition nearest :: "rat \<Rightarrow> rat \<Rightarrow> rat list \<Rightarrow> rat" where
  "nearest g a vs =
     (case vs of
        [v] \<Rightarrow> v
      | [lo, hi] \<Rightarrow>
          (if a - lo < hi - a then lo
           else if hi - a < a - lo then hi
           else if even \<lfloor>lo / g\<rfloor> then lo else hi)
      | _ \<Rightarrow> a)"

fun shortest :: "nat \<Rightarrow> nat \<Rightarrow> rat \<Rightarrow> nat \<times> nat" where
  "shortest 0 k a = (nat \<lfloor>nearest (grid k a) a (neighbours k a) / grid k a\<rfloor>, k)"
| "shortest (Suc fuel) k a =
     (if candidates k a = [] then shortest fuel (Suc k) a
      else (nat \<lfloor>nearest (grid k a) a (candidates k a) / grid k a\<rfloor>, k))"

definition strip_zeros :: "string \<Rightarrow> string" where
  "strip_zeros ds = rev (dropWhile (\<lambda>c. c = CHR ''0'') (rev ds))"

definition layout :: "string \<Rightarrow> int \<Rightarrow> string" where
  "layout ds n =
     (let k = int (length ds)
      in if k \<le> n \<and> n \<le> 21 then ds @ replicate (nat (n - k)) CHR ''0''
         else if 0 < n \<and> n \<le> 21 then take (nat n) ds @ ''.'' @ drop (nat n) ds
         else if - 6 < n \<and> n \<le> 0 then ''0.'' @ replicate (nat (- n)) CHR ''0'' @ ds
         else [hd ds] @ (if k = 1 then [] else ''.'' @ tl ds) @ ''e'' @
              (if n - 1 < 0 then ''-'' else ''+'') @ digits (nat \<bar>n - 1\<bar>))"

definition to_string_pos :: "rat \<Rightarrow> string" where
  "to_string_pos a =
     (case shortest 16 1 a of (s, k) \<Rightarrow>
        layout (strip_zeros (digits s)) (dec_exp a + int (length (digits s)) - int k))"

fun to_string :: "number \<Rightarrow> string" where
  "to_string NaN = ''NaN''"
| "to_string PosInf = ''Infinity''"
| "to_string NegInf = ''-Infinity''"
| "to_string (Num r) =
     (if r = 0 then ''0''
      else if r < 0 then ''-'' @ to_string_pos (- r)
      else to_string_pos r)"

subsection \<open>Number.prototype.toFixed\<close>

text \<open>
  \<open>toFixed f x\<close> follows the standard's steps for \<open>0 \<le> f \<le> 100\<close> (the program
  calls it with \<open>f = 2\<close>): a non-finite value prints its name; otherwise the sign
  is split off, a magnitude of at least \<open>10\<^sup>2\<^sup>1\<close> is printed by \<open>toString\<close>, and
  below that the integer \<open>n\<close> nearest to \<open>x \<times> 10\<^sup>f\<close> (the larger of two equally
  near ones) is printed with a point before its last \<open>f\<close> digits, padded with
  zeros so that at least one digit precedes the point.
\<close>

definition fixed_digits :: "nat \<Rightarrow> rat \<Rightarrow> string" where
  "fixed_digits f a =
     (let n = nat \<lfloor>a * 10 ^ f + 1 / 2\<rfloor>;
          m = digits n;
          k = length m;
          m' = (if k \<le> f then replicate (f + 1 - k) CHR ''0'' @ m else m);
          k' = (if k \<le> f then f + 1 else k)
      in if f \<noteq> 0 then take (k' - f) m' @ ''.'' @ drop (k' - f) m' else m)"

fun toFixed :: "nat \<Rightarrow> number \<Rightarrow> string" where
  "toFixed f NaN = ''NaN''"
| "toFixed f PosInf = ''Infinity''"
| "toFixed f NegInf = ''-Infinity''"
| "toFixed f (Num r) =
     (let s = (if r < 0 then ''-'' else ''''); a = \<bar>r\<bar>
      in if 10 ^ 21 \<le> a then s @ to_string_pos a
         else s @ fixed_digits f a)"

text \<open>Reading a digit string back: the inverse of \<open>digits\<close>.\<close>

definition digit_value :: "char \<Rightarrow> nat" where
  "digit_value c = of_char c - 48"

definition digits_value :: "string \<Rightarrow> nat" where
  "digits_value ds = foldl (\<lambda>acc c. 10 * acc + digit_value c) 0 ds"

definition is_digit :: "char \<Rightarrow> bool" where
  "is_digit c \<longleftrightarrow> 48 \<le> (of_char c :: nat) \<and> (of_char c :: nat) \<le> 57"

text \<open>An amount of \<open>n\<close> hundredths written with two decimals.\<close>

definition two_decimals :: "nat \<Rightarrow> string" where
  "two_decimals n =
     digits (n div 100) @ ''.'' @ [digit_char (n div 10 mod 10), digit_char (n mod 10)]"

subsection \<open>Reading a decimal\<close>

text \<open>
  The reader the round trip of \<open>toString\<close> is stated with, after the standard's
  conversion of a string to a number: a decimal is the digits before the
  point, the digits after it and a signed exponent after \<open>e\<close>; \<open>read_decimal\<close> is
  its exact value and \<open>string_to_number\<close> that value rounded, or the non-finite
  number a name stands for. The program itself never reads a number.
\<close>

definition before :: "char \<Rightarrow> string \<Rightarrow> string" where
  "before c s = takeWhile (\<lambda>x. x \<noteq> c) s"

definition after :: "char \<Rightarrow> string \<Rightarrow> string" where
  "after c s = drop 1 (dropWhile (\<lambda>x. x \<noteq> c) s)"

fun read_exponent :: "string \<Rightarrow> int" where
  "read_exponent [] = 0"
| "read_exponent (c # ds) =
     (if c = CHR ''-'' then - int (digits_value ds) else int (digits_value ds))"

definition read_decimal :: "string \<Rightarrow> rat" where
  "read_decimal s =
     (let m = before CHR ''e'' s; ip = before CHR ''.'' m; fp = after CHR ''.'' m
      in of_nat (digits_value (ip @ fp)) *
         10 powi (read_exponent (after CHR ''e'' s) - int (length fp)))"

definition string_to_number :: "string \<Rightarrow> number" where
  "string_to_number s =
     (if s = ''NaN'' then NaN
      else if s = ''Infinity'' then PosInf
      else if s = ''-Infinity'' then NegInf
      else if hd s = CHR ''-'' then binary64 (- read_decimal (tl s))
      else binary64 (read_decimal s))"

lemmas to_string_Num = to_string.simps(4)

declare to_string.simps(4) [simp del]

subsection \<open>Digits\<close>

lemma digits_small: "n < 10 \<Longrightarrow> digits n = [digit_char n]"
  by (simp add: digits.simps)

lemma digits_step: "10 \<le> n \<Longrightarrow> digits n = digits (n div 10) @ [digit_char (n mod 10)]"
  by (subst digits.simps) simp

lemma digits_numeral [simp]:
  "digits (numeral w) =
     (if (numeral w :: nat) < 10 then [digit_char (numeral w)]
      else digits (numeral w div 10) @ [digit_char (numeral w mod 10)])"
  by (rule digits.simps)

lemma digit_char_0 [simp]: "digit_char 0 = CHR ''0''" unfolding digit_char_def by code_simp
lemma digit_char_1 [simp]: "digit_char 1 = CHR ''1''" unfolding digit_char_def by code_simp
lemma digit_char_2 [simp]: "digit_char 2 = CHR ''2''" unfolding digit_char_def by code_simp
lemma digit_char_3 [simp]: "digit_char 3 = CHR ''3''" unfolding digit_char_def by code_simp
lemma digit_char_4 [simp]: "digit_char 4 = CHR ''4''" unfolding digit_char_def by code_simp
lemma digit_char_5 [simp]: "digit_char 5 = CHR ''5''" unfolding digit_char_def by code_simp
lemma digit_char_6 [simp]: "digit_char 6 = CHR ''6''" unfolding digit_char_def by code_simp
lemma digit_char_7 [simp]: "digit_char 7 = CHR ''7''" unfolding digit_char_def by code_simp
lemma digit_char_8 [simp]: "digit_char 8 = CHR ''8''" unfolding digit_char_def by code_simp
lemma digit_char_9 [simp]: "digit_char 9 = CHR ''9''" unfolding digit_char_def by code_simp

lemma digits_0 [simp]: "digits 0 = ''0''"
  by (simp add: digits_small)

lemma digit_char_Suc_0 [simp]: "digit_char (Suc 0) = CHR ''1''"
  using digit_char_1 by simp

lemma digits_1 [simp]: "digits (Suc 0) = ''1''"
  by (simp add: digits_small)

lemma digits_neq_Nil [simp]: "digits n \<noteq> []"
  by (subst digits.simps) simp

lemma length_digits_pos [simp]: "0 < length (digits n)"
  by simp

lemma length_digits_step: "10 \<le> n \<Longrightarrow> length (digits n) = Suc (length (digits (n div 10)))"
  by (simp add: digits_step)

lemma length_digits_lt: "n < 10 ^ k \<Longrightarrow> 0 < k \<Longrightarrow> length (digits n) \<le> k"
proof (induction n arbitrary: k rule: digits.induct)
  case (1 n)
  show ?case
  proof (cases "n < 10")
    case True
    with "1.prems" show ?thesis by (simp add: digits_small)
  next
    case False
    with "1.prems" obtain j where k: "k = Suc j" and j: "0 < j"
      by (cases k; cases "k - 1") auto
    from "1.prems" k have "n div 10 < 10 ^ j" by (simp add: less_mult_imp_div_less mult.commute)
    with False j have "length (digits (n div 10)) \<le> j" by (intro "1.IH") simp_all
    with False k show ?thesis by (simp add: digits_step)
  qed
qed

lemma of_char_digit_char: "d < 10 \<Longrightarrow> (of_char (digit_char d) :: nat) = 48 + d"
  by (simp add: digit_char_def)

lemma digit_value_digit_char [simp]: "d < 10 \<Longrightarrow> digit_value (digit_char d) = d"
  by (simp add: digit_value_def of_char_digit_char)

lemma is_digit_digit_char [simp]: "d < 10 \<Longrightarrow> is_digit (digit_char d)"
  by (simp add: is_digit_def of_char_digit_char)

lemma digits_value_snoc [simp]:
  "digits_value (ds @ [c]) = 10 * digits_value ds + digit_value c"
  by (simp add: digits_value_def)

lemma digits_value_digits: "digits_value (digits n) = n"
proof (induction n rule: digits.induct)
  case (1 n)
  show ?case
  proof (cases "n < 10")
    case True
    then show ?thesis by (simp add: digits_small digits_value_def)
  next
    case False
    with "1.IH" have "digits_value (digits (n div 10)) = n div 10" by simp
    with False show ?thesis by (simp add: digits_step)
  qed
qed

lemma digits_all_digit: "list_all is_digit (digits n)"
proof (induction n rule: digits.induct)
  case (1 n)
  show ?case
  proof (cases "n < 10")
    case True
    then show ?thesis by (simp add: digits_small)
  next
    case False
    with "1.IH" have "list_all is_digit (digits (n div 10))" by simp
    with False show ?thesis by (simp add: digits_step)
  qed
qed

lemma digits_inject: "digits m = digits n \<Longrightarrow> m = n"
  by (metis digits_value_digits)

subsection \<open>Two fraction digits\<close>

lemma digits_two_split:
  "100 \<le> n \<Longrightarrow>
   digits n = digits (n div 100) @ [digit_char (n div 10 mod 10), digit_char (n mod 10)]"
proof -
  assume n: "100 \<le> n"
  then have "10 \<le> n" and "10 \<le> n div 10" by simp_all
  then have "digits n = digits (n div 10 div 10) @ [digit_char (n div 10 mod 10)] @ [digit_char (n mod 10)]"
    by (simp add: digits_step)
  then show ?thesis by (simp add: div_mult2_eq [symmetric])
qed

lemma fixed_digits_2:
  "fixed_digits 2 a =
     (let n = nat \<lfloor>a * 100 + 1 / 2\<rfloor>
      in digits (n div 100) @ ''.'' @ [digit_char (n div 10 mod 10), digit_char (n mod 10)])"
proof -
  define n where "n = nat \<lfloor>a * 100 + 1 / 2\<rfloor>"
  consider "n < 10" | "10 \<le> n" "n < 100" | "100 \<le> n" by linarith
  then have "fixed_digits 2 a =
      digits (n div 100) @ ''.'' @ [digit_char (n div 10 mod 10), digit_char (n mod 10)]"
  proof cases
    case 1
    then show ?thesis
      by (simp add: fixed_digits_def n_def [symmetric] digits_small numeral_2_eq_2)
  next
    case 2
    then have "length (digits n) = 2" by (simp add: digits_step digits_small)
    with 2 show ?thesis
      by (simp add: fixed_digits_def n_def [symmetric] digits_step digits_small)
  next
    case 3
    then have "2 < length (digits n)" by (simp add: digits_two_split)
    with 3 show ?thesis
      by (simp add: fixed_digits_def n_def [symmetric] digits_two_split)
  qed
  then show ?thesis by (simp add: n_def Let_def)
qed

lemma length_fixed_digits_2: "4 \<le> length (fixed_digits 2 a)"
  by (simp add: fixed_digits_2 Let_def Suc_le_eq)

subsection \<open>Whole numbers print as their digits\<close>

lemma digits_upper: "n < 10 ^ length (digits n)"
proof (induction n rule: digits.induct)
  case (1 n)
  show ?case
  proof (cases "n < 10")
    case True
    then show ?thesis by (simp add: digits_small)
  next
    case False
    with "1.IH" have "n div 10 < 10 ^ length (digits (n div 10))" by simp
    then have "n < 10 * 10 ^ length (digits (n div 10))" by (simp add: div_less_iff_less_mult mult.commute)
    with False show ?thesis by (simp add: digits_step)
  qed
qed

lemma digits_times_10: "0 < s \<Longrightarrow> digits (s * 10) = digits s @ ''0''"
  by (simp add: digits_step [of "s * 10"])

lemma digits_times_power: "0 < s \<Longrightarrow> digits (s * 10 ^ j) = digits s @ replicate j CHR ''0''"
proof (induction j)
  case 0
  show ?case by simp
next
  case (Suc j)
  then have "digits (s * 10 ^ j * 10) = (digits s @ replicate j CHR ''0'') @ ''0''"
    by (simp add: digits_times_10)
  then show ?case by (simp add: mult_ac replicate_append_same)
qed

lemma strip_zeros_restore:
  "strip_zeros ds @ replicate (length ds - length (strip_zeros ds)) CHR ''0'' = ds"
proof -
  have "takeWhile (\<lambda>c. c = CHR ''0'') xs = replicate (length xs - length (dropWhile (\<lambda>c. c = CHR ''0'') xs)) CHR ''0''" for xs
    by (induction xs) (auto simp: Suc_diff_le length_dropWhile_le)
  then have "rev ds = replicate (length ds - length (strip_zeros ds)) CHR ''0'' @ rev (strip_zeros ds)"
    using takeWhile_dropWhile_id [of "\<lambda>c. c = CHR ''0''" "rev ds"] by (simp add: strip_zeros_def)
  then have "rev (rev ds) = rev (replicate (length ds - length (strip_zeros ds)) CHR ''0'' @ rev (strip_zeros ds))"
    by simp
  then show ?thesis by simp
qed

lemma length_strip_zeros: "length (strip_zeros ds) \<le> length ds"
  using length_dropWhile_le [of "\<lambda>c. c = CHR ''0''" "rev ds"] by (simp add: strip_zeros_def)


lemma length_digits_le_15: "n < 10 ^ 15 \<Longrightarrow> length (digits n) \<le> 15"
  by (rule length_digits_lt) simp_all

lemma dec_exp_of_nat: "0 < n \<Longrightarrow> dec_exp (of_nat n) = int (length (digits n))"
  by (simp add: dec_exp_def)

lemma grid_of_nat:
  "0 < n \<Longrightarrow> k \<le> length (digits n) \<Longrightarrow>
   grid k (of_nat n) = of_nat (10 ^ (length (digits n) - k))"
  by (simp add: grid_def dec_exp_of_nat of_nat_diff [symmetric] del: of_nat_diff)

lemma neighbours_of_nat:
  assumes "0 < n" and "k \<le> length (digits n)"
  defines "G \<equiv> 10 ^ (length (digits n) - k)"
  shows "neighbours k (of_nat n) = [of_nat (n div G * G), of_nat (n div G * G + G)]"
proof -
  have "\<lfloor>(of_nat n :: rat) / of_nat G\<rfloor> = int (n div G)"
    by (simp only: floor_divide_of_nat_eq)
  with assms(1,2) show ?thesis
    by (simp add: neighbours_def grid_of_nat G_def [symmetric] Let_def)
qed

lemma upper_neighbour_le:
  assumes "k \<le> length (digits n)"
  shows "n div 10 ^ (length (digits n) - k) * 10 ^ (length (digits n) - k)
           + 10 ^ (length (digits n) - k) \<le> (10 :: nat) ^ length (digits n)"
proof -
  let ?L = "length (digits n)" and ?G = "(10 :: nat) ^ (length (digits n) - k)"
  from assms have split: "(10 :: nat) ^ ?L = 10 ^ k * ?G"
    by (simp add: power_add [symmetric])
  have "n < 10 ^ k * ?G" using digits_upper [of n] by (simp only: split)
  then have "n div ?G < 10 ^ k" by (simp add: less_mult_imp_div_less)
  then have "(n div ?G + 1) * ?G \<le> 10 ^ k * ?G" by (intro mult_le_mono1) simp
  then show ?thesis by (simp add: split)
qed

lemma candidates_of_nat:
  assumes "0 < n" and "n < 10 ^ 15" and "k \<le> length (digits n)"
  shows "candidates k (of_nat n) =
           (if 10 ^ (length (digits n) - k) dvd n then [of_nat n] else [])"
proof -
  let ?G = "(10 :: nat) ^ (length (digits n) - k)"
  let ?lo = "n div ?G * ?G"
  have "(10 :: nat) ^ length (digits n) \<le> 10 ^ 15"
    using length_digits_le_15 [OF assms(2)] by (intro power_increasing) simp_all
  also have "\<dots> \<le> 2 ^ 53" by simp
  finally have hi: "?lo + ?G \<le> 2 ^ 53" using upper_neighbour_le [OF assms(3)] by linarith
  then have lo: "?lo \<le> 2 ^ 53" by linarith
  have "n mod ?G < ?G" by simp
  then have above: "n < ?lo + ?G" using div_mult_mod_eq [of n ?G] by linarith
  have "?lo = n \<longleftrightarrow> ?G dvd n" by (metis dvd_div_mult_self dvd_triv_right)
  moreover have "(of_nat (?lo + ?G) :: rat) \<noteq> of_nat n"
    using above by (simp only: of_nat_eq_iff)
  moreover have "(of_nat ?lo :: rat) = of_nat n \<longleftrightarrow> ?lo = n" by (simp only: of_nat_eq_iff)
  ultimately show ?thesis
    using binary64_of_nat [OF hi] binary64_of_nat [OF lo]
    by (simp add: candidates_def neighbours_of_nat [OF assms(1,3)])
qed

lemma shortest_of_nat:
  assumes "0 < n" and "n < 10 ^ 15"
  shows "k \<le> length (digits n) \<Longrightarrow> length (digits n) \<le> k + fuel \<Longrightarrow>
         \<exists>s k'. shortest fuel k (of_nat n) = (s, k') \<and> k' \<le> length (digits n) \<and>
                s * 10 ^ (length (digits n) - k') = n"
proof (induction fuel arbitrary: k)
  case 0
  then have k: "k = length (digits n)" by simp
  with assms(1) show ?case
    by (simp add: grid_of_nat neighbours_of_nat nearest_def)
next
  case (Suc fuel)
  let ?G = "(10 :: nat) ^ (length (digits n) - k)"
  show ?case
  proof (cases "?G dvd n")
    case True
    have "\<lfloor>(of_nat n :: rat) / of_nat ?G\<rfloor> = int (n div ?G)"
      by (simp only: floor_divide_of_nat_eq)
    with True assms Suc.prems(1) show ?thesis
      by (simp add: candidates_of_nat grid_of_nat nearest_def)
  next
    case False
    then have "k \<noteq> length (digits n)" by auto
    with Suc.prems have "Suc k \<le> length (digits n)" "length (digits n) \<le> Suc k + fuel"
      by simp_all
    then have "\<exists>s k'. shortest fuel (Suc k) (of_nat n) = (s, k') \<and> k' \<le> length (digits n) \<and>
                s * 10 ^ (length (digits n) - k') = n"
      by (rule Suc.IH)
    with False assms Suc.prems(1) show ?thesis by (simp add: candidates_of_nat)
  qed
qed

lemma to_string_pos_of_nat:
  assumes "0 < n" and "n < 10 ^ 15"
  shows "to_string_pos (of_nat n) = digits n"
proof -
  define L where "L = length (digits n)"
  have L: "Suc 0 \<le> L" "L \<le> Suc 0 + 16" "L \<le> 15"
    using length_digits_le_15 [OF assms(2)] by (simp_all add: L_def Suc_le_eq)
  from shortest_of_nat [OF assms, of "Suc 0" 16] L(1,2)
  obtain s k where sh: "shortest 16 (Suc 0) (of_nat n) = (s, k)" and k: "k \<le> L"
    and n: "s * 10 ^ (L - k) = n"
    unfolding L_def by blast
  have s: "0 < s" using assms(1) by (cases s) (simp_all add: n [symmetric])
  have "digits (s * 10 ^ (L - k)) = digits s @ replicate (L - k) CHR ''0''"
    using s by (rule digits_times_power)
  then have d: "digits n = digits s @ replicate (L - k) CHR ''0''" by (simp only: n)
  then have "length (digits n) = length (digits s) + (L - k)" by simp
  with k have len: "length (digits s) = k" by (simp add: L_def [symmetric])
  let ?ds = "strip_zeros (digits s)"
  have short: "length ?ds \<le> k" using length_strip_zeros [of "digits s"] by (simp only: len)
  have "to_string_pos (of_nat n) = layout ?ds (int L)"
    using assms(1) by (simp add: to_string_pos_def sh dec_exp_of_nat len L_def)
  also have "\<dots> = ?ds @ replicate (L - length ?ds) CHR ''0''"
    using short k L(3) by (simp add: layout_def Let_def nat_diff_distrib' del: of_nat_diff)
  also have "L - length ?ds = (length (digits s) - length ?ds) + (L - k)"
    using short k by (simp add: len)
  also have "?ds @ replicate ((length (digits s) - length ?ds) + (L - k)) CHR ''0''
               = (?ds @ replicate (length (digits s) - length ?ds) CHR ''0'') @
                 replicate (L - k) CHR ''0''"
    by (simp add: replicate_add)
  also have "\<dots> = digits n" by (simp only: strip_zeros_restore d)
  finally show ?thesis .
qed

lemma to_string_of_nat: "n < 10 ^ 15 \<Longrightarrow> to_string (Num (of_nat n)) = digits n"
  by (cases "n = 0") (simp_all add: to_string_Num to_string_pos_of_nat)

subsection \<open>The digits printed read back as the number\<close>

text \<open>
  \<open>dec_exp\<close> is the decimal exponent, so a decimal with 17 digits at the
  magnitude of \<open>a\<close> is at most \<open>a / (2 \<times> 10\<^sup>1\<^sup>6)\<close> away from \<open>a\<close>, which is less than
  \<open>a / 2\<^sup>5\<^sup>4\<close>: it rounds to \<open>a\<close>. Hence the 16 units of fuel of \<open>shortest\<close> are
  enough: the decimal it returns when the fuel is used up rounds to \<open>a\<close> like
  every candidate it returns before.
\<close>

lemma digits_lower: "0 < n \<Longrightarrow> 10 ^ (length (digits n) - 1) \<le> n"
proof (induction n rule: digits.induct)
  case (1 n)
  show ?case
  proof (cases "n < 10")
    case True
    with "1.prems" show ?thesis by (simp add: digits_small)
  next
    case False
    then have "0 < n div 10" by simp
    obtain j where j: "length (digits (n div 10)) = Suc j"
      by (cases "length (digits (n div 10))") simp_all
    from False \<open>0 < n div 10\<close> "1.IH" have "10 ^ j \<le> n div 10" by (simp add: j)
    then have "10 * 10 ^ j \<le> 10 * (n div 10)" by simp
    also have "\<dots> \<le> n" by simp
    finally have "10 ^ length (digits (n div 10)) \<le> n" by (simp add: j)
    with False show ?thesis by (simp add: digits_step)
  qed
qed

lemma lead_exp_bounds:
  "0 < a \<Longrightarrow> a < 1 \<Longrightarrow> 10 powi (lead_exp a - 1) \<le> a \<and> a < 10 powi lead_exp a"
proof (induction a rule: lead_exp.induct)
  case (1 a)
  show ?case
  proof (cases "1 / 10 \<le> a")
    case True
    with "1.prems" show ?thesis by (subst (1 2) lead_exp.simps) (simp add: power_int_minus)
  next
    case False
    with "1.prems" have "10 powi (lead_exp (10 * a) - 1) \<le> 10 * a \<and> 10 * a < 10 powi lead_exp (10 * a)"
      by (intro "1.IH") simp_all
    moreover have "(10 :: rat) powi (lead_exp (10 * a) - 1) = 10 * 10 powi (lead_exp (10 * a) - 1 - 1)"
      by (simp add: power_int_diff)
    moreover have "(10 :: rat) powi lead_exp (10 * a) = 10 * 10 powi (lead_exp (10 * a) - 1)"
      by (simp add: power_int_diff)
    ultimately show ?thesis using False "1.prems" by (subst (1 2) lead_exp.simps) simp
  qed
qed

lemma dec_exp_bounds:
  assumes "0 < a"
  shows "10 powi (dec_exp a - 1) \<le> a" and "a < 10 powi dec_exp a"
proof -
  have "10 powi (dec_exp a - 1) \<le> a \<and> a < 10 powi dec_exp a"
  proof (cases "1 \<le> a")
    case True
    define n where "n = nat \<lfloor>a\<rfloor>"
    from True have n: "0 < n" "of_nat n \<le> a" "a < of_nat n + 1"
      by (simp_all add: n_def) linarith+
    define L where "L = length (digits n)"
    have L: "0 < L" by (simp add: L_def)
    have "(10 :: rat) ^ (L - 1) = of_nat (10 ^ (L - 1))" by simp
    also have "\<dots> \<le> of_nat n"
      using digits_lower [OF n(1)] by (simp only: of_nat_le_iff L_def)
    also note n(2)
    finally have "(10 :: rat) ^ (L - 1) \<le> a" .
    then have lo: "10 powi (int L - 1) \<le> a"
      using L by (simp add: power_int_def nat_diff_distrib')
    have "n + 1 \<le> 10 ^ L" using digits_upper [of n] by (simp add: L_def)
    then have "(of_nat (n + 1) :: rat) \<le> of_nat (10 ^ L)" by (simp only: of_nat_le_iff)
    then have "a < 10 powi int L" using n(3) by simp
    with lo True show ?thesis by (simp add: dec_exp_def n_def L_def)
  next
    case False
    with assms lead_exp_bounds [of a] show ?thesis by (simp add: dec_exp_def)
  qed
  then show "10 powi (dec_exp a - 1) \<le> a" and "a < 10 powi dec_exp a" by simp_all
qed

lemma grid_pos [simp]: "0 < grid k a"
  by (simp add: grid_def)

lemma grid_neq_0 [simp]: "grid k a \<noteq> 0"
  by (rule less_imp_neq [OF grid_pos, symmetric])

lemma neighbours_bracket:
  assumes "0 < a"
  obtains j where "0 \<le> j" and "neighbours k a = [of_int j * grid k a, of_int (j + 1) * grid k a]"
    and "of_int j * grid k a \<le> a" and "a < of_int (j + 1) * grid k a"
proof -
  define j where "j = \<lfloor>a / grid k a\<rfloor>"
  have "0 \<le> a / grid k a" using assms by (simp add: less_imp_le)
  then have "0 \<le> j" by (simp add: j_def)
  moreover have "neighbours k a = [of_int j * grid k a, of_int (j + 1) * grid k a]"
    by (simp add: neighbours_def Let_def j_def algebra_simps)
  moreover have "of_int j \<le> a / grid k a" "a / grid k a < of_int (j + 1)"
    unfolding j_def by linarith+
  then have "of_int j * grid k a \<le> a" "a < of_int (j + 1) * grid k a"
    by (simp_all add: pos_le_divide_eq pos_divide_less_eq)
  ultimately show ?thesis using that by blast
qed

lemma grid_multiple_floor:
  "0 \<le> j \<Longrightarrow> of_nat (nat \<lfloor>of_int j * grid k a / grid k a\<rfloor>) * grid k a = of_int j * grid k a"
  by simp

lemma nearest_two:
  "(nearest g a [lo, hi] = lo \<and> a - lo \<le> hi - a) \<or>
   (nearest g a [lo, hi] = hi \<and> hi - a \<le> a - lo)"
  by (simp add: nearest_def)

lemma nearest_neighbour:
  assumes "0 < a"
  obtains j where "0 \<le> j" and "nearest (grid k a) a (neighbours k a) = of_int j * grid k a"
    and "\<bar>of_int j * grid k a - a\<bar> \<le> grid k a / 2"
proof -
  from assms obtain j where j: "0 \<le> j"
      "neighbours k a = [of_int j * grid k a, of_int (j + 1) * grid k a]"
      "of_int j * grid k a \<le> a" "a < of_int (j + 1) * grid k a"
    by (rule neighbours_bracket)
  have hi: "of_int (j + 1) * grid k a = of_int j * grid k a + grid k a"
    by (simp add: algebra_simps)
  from nearest_two [of "grid k a" a "of_int j * grid k a" "of_int (j + 1) * grid k a"]
  show ?thesis
  proof (elim disjE conjE)
    assume n: "nearest (grid k a) a [of_int j * grid k a, of_int (j + 1) * grid k a]
              = of_int j * grid k a"
      and d: "a - of_int j * grid k a \<le> of_int (j + 1) * grid k a - a"
    from j(3,4) d hi have "\<bar>of_int j * grid k a - a\<bar> \<le> grid k a / 2" by linarith
    with j(1) n show ?thesis by (intro that [of j]) (simp_all only: j(2))
  next
    assume n: "nearest (grid k a) a [of_int j * grid k a, of_int (j + 1) * grid k a]
              = of_int (j + 1) * grid k a"
      and d: "of_int (j + 1) * grid k a - a \<le> a - of_int j * grid k a"
    from j(3,4) d hi have "\<bar>of_int (j + 1) * grid k a - a\<bar> \<le> grid k a / 2" by linarith
    with j(1) n show ?thesis by (intro that [of "j + 1"]) (simp_all add: j(2))
  qed
qed

lemma nearest_candidate:
  assumes "0 < a" and "candidates k a \<noteq> []"
  obtains j where "0 \<le> j" and "nearest (grid k a) a (candidates k a) = of_int j * grid k a"
    and "binary64 (of_int j * grid k a) = Num a"
proof -
  from assms(1) obtain j where j: "0 \<le> j"
      "neighbours k a = [of_int j * grid k a, of_int (j + 1) * grid k a]"
    by (rule neighbours_bracket)
  define v where "v = nearest (grid k a) a (candidates k a)"
  have "v \<in> set (candidates k a)"
    using assms(2) unfolding v_def candidates_def j(2) by (auto simp: nearest_def split: if_splits)
  then have "binary64 v = Num a" and "v = of_int j * grid k a \<or> v = of_int (j + 1) * grid k a"
    unfolding candidates_def j(2) set_filter by auto
  with j(1) that [of j] that [of "j + 1"] show ?thesis unfolding v_def by auto
qed

lemma seventeen_digits:
  assumes "0 < a" and "17 \<le> k"
  shows "grid k a / 2 < a * 2 powi (- 54)"
proof -
  have "grid k a \<le> 10 powi (dec_exp a - 17)"
    using assms(2) unfolding grid_def by (intro power_int_increasing) simp_all
  also have "\<dots> = 10 powi (dec_exp a - 1) / 10 ^ 16" by (simp add: power_int_diff)
  also have "\<dots> \<le> a / 10 ^ 16"
    using dec_exp_bounds(1) [OF assms(1)] by (intro divide_right_mono) simp_all
  finally have "grid k a / 2 \<le> a / (2 * 10 ^ 16)" by simp
  also have "\<dots> < a * 2 powi (- 54)" using assms(1) by (simp add: power_int_minus field_simps)
  finally show ?thesis .
qed

lemma shortest_rounds_back:
  assumes rep: "binary64 a = Num a" and pos: "0 < a"
  shows "17 \<le> k + fuel \<Longrightarrow> shortest fuel k a = (s, k') \<Longrightarrow>
         binary64 (of_nat s * grid k' a) = Num a \<and> k \<le> k' \<and> k' \<le> k + fuel"
proof (induction fuel arbitrary: k)
  case 0
  from pos obtain j where j: "0 \<le> j"
      "nearest (grid k a) a (neighbours k a) = of_int j * grid k a"
      "\<bar>of_int j * grid k a - a\<bar> \<le> grid k a / 2"
    by (rule nearest_neighbour)
  from 0 have k: "k' = k" and s: "of_nat s * grid k a = of_int j * grid k a"
    using j(1) by (auto simp: j(2))
  from j(3) seventeen_digits [OF pos, of k] 0
  have "\<bar>of_int j * grid k a - a\<bar> < a * 2 powi (- 54)" by simp
  with rep pos have "binary64 (of_int j * grid k a) = Num a" by (rule binary64_near)
  with k s show ?case by simp
next
  case (Suc fuel)
  show ?case
  proof (cases "candidates k a = []")
    case True
    with Suc.prems have "shortest fuel (Suc k) a = (s, k')" "17 \<le> Suc k + fuel" by simp_all
    from Suc.IH [OF this(2,1)] show ?thesis by simp
  next
    case False
    with pos obtain j where j: "0 \<le> j"
        "nearest (grid k a) a (candidates k a) = of_int j * grid k a"
        "binary64 (of_int j * grid k a) = Num a"
      by (rule nearest_candidate)
    from Suc.prems False have "k' = k" and "of_nat s * grid k a = of_int j * grid k a"
      using j(1) by (auto simp: j(2))
    with j(3) show ?thesis by simp
  qed
qed

subsection \<open>No shorter decimal rounds to the number\<close>

text \<open>
  \<open>shortest\<close> looks at two decimals of each length only, the neighbours of the
  number on the grid of that length. That is enough: a decimal of \<open>k\<close> digits
  at a higher exponent is on that grid as well, one at a lower exponent is
  below the least power of ten of the grid, and whatever lies between the
  number and a decimal that rounds to it rounds to it too.
\<close>

lemma shortest_passed:
  "shortest fuel k0 a = (s, k) \<Longrightarrow> k0 \<le> j \<Longrightarrow> j < k \<Longrightarrow> candidates j a = []"
proof (induction fuel arbitrary: k0)
  case 0
  then show ?case by simp
next
  case (Suc fuel)
  show ?case
  proof (cases "candidates k0 a = []")
    case True
    with Suc.prems have sh: "shortest fuel (Suc k0) a = (s, k)" by simp
    show ?thesis
    proof (cases "j = k0")
      case True
      with \<open>candidates k0 a = []\<close> show ?thesis by simp
    next
      case False
      with Suc.prems have "Suc k0 \<le> j" by simp
      with sh show ?thesis using Suc.prems(3) by (rule Suc.IH)
    qed
  next
    case False
    with Suc.prems show ?thesis by simp
  qed
qed

lemma multiple_below:
  assumes "of_int q * grid k a \<le> a" and "a < of_int (j + 1) * grid k a"
  shows "of_int q * grid k a \<le> of_int j * grid k a"
proof -
  from assms have "of_int q * grid k a < of_int (j + 1) * grid k a" by linarith
  then have "(of_int q :: rat) < of_int (j + 1)" by (simp only: mult_less_cancel_right_pos [OF grid_pos])
  then have "q < j + 1" by (simp only: of_int_less_iff)
  then have "q \<le> j" by simp
  then have "(of_int q :: rat) \<le> of_int j" by (simp only: of_int_le_iff)
  then show ?thesis by (rule mult_right_mono) (simp add: less_imp_le)
qed

lemma multiple_above:
  assumes "a < of_int q * grid k a" and "of_int j * grid k a \<le> a"
  shows "of_int (j + 1) * grid k a \<le> of_int q * grid k a"
proof -
  from assms have "of_int j * grid k a < of_int q * grid k a" by linarith
  then have "(of_int j :: rat) < of_int q" by (simp only: mult_less_cancel_right_pos [OF grid_pos])
  then have "j < q" by (simp only: of_int_less_iff)
  then have "j + 1 \<le> q" by simp
  then have "(of_int (j + 1) :: rat) \<le> of_int q" by (simp only: of_int_le_iff)
  then show ?thesis by (rule mult_right_mono) (simp add: less_imp_le)
qed

lemma decimal_multiple:
  assumes "dec_exp a - int k \<le> m"
  obtains q where "of_nat s * 10 powi m = of_int q * grid k a"
proof -
  define z where "z = nat (m - (dec_exp a - int k))"
  from assms have "m = int z + (dec_exp a - int k)" by (simp add: z_def)
  then have "(10 :: rat) powi m = 10 ^ z * grid k a"
    by (simp add: grid_def power_int_add)
  then have "of_nat s * 10 powi m = of_int (int s * 10 ^ z) * grid k a" by simp
  then show ?thesis by (rule that)
qed

lemma power_multiple:
  assumes "1 \<le> k"
  obtains q where "10 powi (dec_exp a - 1) = of_int q * grid k a"
proof -
  from assms have "dec_exp a - int k \<le> dec_exp a - 1" by simp
  then obtain q where "of_nat 1 * 10 powi (dec_exp a - 1) = of_int q * grid k a"
    by (rule decimal_multiple)
  then have "10 powi (dec_exp a - 1) = of_int q * grid k a" by simp
  then show ?thesis by (rule that)
qed

lemma short_decimal_below:
  assumes "s < 10 ^ k" and "m < dec_exp a - int k"
  shows "of_nat s * 10 powi m < (10 :: rat) powi (dec_exp a - 1)"
proof -
  from assms(1) have "(of_nat s :: rat) < of_nat (10 ^ k)" by (simp only: of_nat_less_iff)
  then have "of_nat s * 10 powi m < (10 :: rat) ^ k * 10 powi m"
    by (intro mult_strict_right_mono) simp_all
  also have "\<dots> = 10 powi (int k + m)" by (simp add: power_int_add)
  also have "\<dots> \<le> 10 powi (dec_exp a - 1)"
    using assms(2) by (intro power_int_increasing) simp_all
  finally show ?thesis .
qed

lemma neighbour_below:
  assumes pos: "0 < a" and k: "1 \<le> k" and s: "s < 10 ^ k"
    and hi: "a < of_int (j + 1) * grid k a" and d: "of_nat s * 10 powi m \<le> a"
  shows "of_nat s * 10 powi m \<le> of_int j * grid k a"
proof (cases "dec_exp a - int k \<le> m")
  case True
  then obtain q where q: "of_nat s * 10 powi m = of_int q * grid k a" by (rule decimal_multiple)
  from d hi show ?thesis unfolding q by (rule multiple_below)
next
  case False
  then have "m < dec_exp a - int k" by linarith
  with s have less: "of_nat s * 10 powi m < (10 :: rat) powi (dec_exp a - 1)"
    by (rule short_decimal_below)
  from k obtain p where p: "10 powi (dec_exp a - 1) = of_int p * grid k a"
    by (rule power_multiple)
  with dec_exp_bounds(1) [OF pos] have "of_int p * grid k a \<le> a" by simp
  then have "of_int p * grid k a \<le> of_int j * grid k a" using hi by (rule multiple_below)
  then have "10 powi (dec_exp a - 1) \<le> of_int j * grid k a" by (simp only: p)
  with less show ?thesis by linarith
qed

lemma neighbour_above:
  assumes pos: "0 < a" and s: "s < 10 ^ k"
    and lo: "of_int j * grid k a \<le> a" and d: "a < of_nat s * 10 powi m"
  shows "of_int (j + 1) * grid k a \<le> of_nat s * 10 powi m"
proof (cases "dec_exp a - int k \<le> m")
  case True
  then obtain q where q: "of_nat s * 10 powi m = of_int q * grid k a" by (rule decimal_multiple)
  from d lo show ?thesis unfolding q by (rule multiple_above)
next
  case False
  then have "m < dec_exp a - int k" by linarith
  with s have "of_nat s * 10 powi m < (10 :: rat) powi (dec_exp a - 1)"
    by (rule short_decimal_below)
  with dec_exp_bounds(1) [OF pos] d show ?thesis by linarith
qed

lemma candidate_exists:
  assumes rep: "binary64 a = Num a" and pos: "0 < a" and k: "1 \<le> k"
    and s: "s < 10 ^ k" and d: "binary64 (of_nat s * 10 powi m) = Num a"
  shows "candidates k a \<noteq> []"
proof -
  define D where "D = (of_nat s :: rat) * 10 powi m"
  from pos obtain j where j: "0 \<le> j"
      "neighbours k a = [of_int j * grid k a, of_int (j + 1) * grid k a]"
      "of_int j * grid k a \<le> a" "a < of_int (j + 1) * grid k a"
    by (rule neighbours_bracket)
  have "binary64 (of_int j * grid k a) = Num a \<or> binary64 (of_int (j + 1) * grid k a) = Num a"
  proof (cases "D \<le> a")
    case True
    with pos k s j(4) have "D \<le> of_int j * grid k a" unfolding D_def by (intro neighbour_below)
    with j(3) have "D \<le> of_int j * grid k a \<and> of_int j * grid k a \<le> a \<or>
        a \<le> of_int j * grid k a \<and> of_int j * grid k a \<le> D" by simp
    with rep d [folded D_def] have "binary64 (of_int j * grid k a) = Num a"
      by (rule binary64_between)
    then show ?thesis ..
  next
    case False
    with pos s j(3) have "of_int (j + 1) * grid k a \<le> D"
      unfolding D_def by (intro neighbour_above) simp_all
    with j(4) have "D \<le> of_int (j + 1) * grid k a \<and> of_int (j + 1) * grid k a \<le> a \<or>
        a \<le> of_int (j + 1) * grid k a \<and> of_int (j + 1) * grid k a \<le> D" by simp
    with rep d [folded D_def] have "binary64 (of_int (j + 1) * grid k a) = Num a"
      by (rule binary64_between)
    then show ?thesis ..
  qed
  then show ?thesis by (auto simp: candidates_def j(2))
qed

lemma shortest_minimal:
  assumes rep: "binary64 a = Num a" and pos: "0 < a" and sh: "shortest 16 1 a = (s, k)"
    and s: "s' < 10 ^ k'" and d: "binary64 (of_nat s' * 10 powi m) = Num a"
  shows "k \<le> k'"
proof (rule ccontr)
  assume "\<not> k \<le> k'"
  then have lt: "k' < k" by simp
  have "k' \<noteq> 0"
  proof
    assume "k' = 0"
    with s have "s' = 0" by simp
    with d pos show False by simp
  qed
  then have k': "1 \<le> k'" by simp
  with sh lt have "candidates k' a = []" by (intro shortest_passed [of 16 1 a s k]) simp_all
  moreover from rep pos k' s d have "candidates k' a \<noteq> []" by (rule candidate_exists)
  ultimately show False by simp
qed

lemma floor_below_power:
  assumes "0 < a"
  shows "\<lfloor>a / grid k a\<rfloor> < 10 ^ k"
proof -
  have "a < 10 powi dec_exp a" using assms by (rule dec_exp_bounds)
  also have "\<dots> = 10 ^ k * grid k a" by (simp add: grid_def power_int_diff)
  finally have "a / grid k a < of_int (10 ^ k)" by (simp add: pos_divide_less_eq)
  then show ?thesis by (simp only: floor_less_iff)
qed

lemma neighbour_quotient:
  assumes "0 < a" and "v \<in> set (neighbours k a)"
  shows "nat \<lfloor>v / grid k a\<rfloor> \<le> 10 ^ k"
proof -
  define j where "j = \<lfloor>a / grid k a\<rfloor>"
  have j: "j < 10 ^ k" unfolding j_def using assms(1) by (rule floor_below_power)
  from assms(2) have "v = of_int j * grid k a \<or> v = of_int (j + 1) * grid k a"
    by (simp add: neighbours_def Let_def j_def algebra_simps)
  then have "\<lfloor>v / grid k a\<rfloor> = j \<or> \<lfloor>v / grid k a\<rfloor> = j + 1" by auto
  with j have "\<lfloor>v / grid k a\<rfloor> \<le> 10 ^ k" by auto
  then show ?thesis by (simp add: nat_le_iff)
qed

lemma nearest_in_neighbours:
  "nearest g a (neighbours k a) \<in> set (neighbours k a)"
  "candidates k a \<noteq> [] \<Longrightarrow> nearest g a (candidates k a) \<in> set (neighbours k a)"
  by (auto simp: nearest_def candidates_def neighbours_def Let_def split: if_splits)

lemma shortest_bound:
  assumes "0 < a"
  shows "shortest fuel k a = (s, k') \<Longrightarrow> s \<le> 10 ^ k'"
proof (induction fuel arbitrary: k)
  case 0
  with neighbour_quotient [OF assms nearest_in_neighbours(1) [where g = "grid k a" and a = a and k = k]]
  show ?case by auto
next
  case (Suc fuel)
  show ?case
  proof (cases "candidates k a = []")
    case True
    with Suc.prems have "shortest fuel (Suc k) a = (s, k')" by simp
    then show ?thesis by (rule Suc.IH)
  next
    case False
    with Suc.prems
      neighbour_quotient [OF assms nearest_in_neighbours(2) [where g = "grid k a" and a = a and k = k]]
    show ?thesis by auto
  qed
qed

lemma strip_zeros_power: "strip_zeros (digits (10 ^ k)) = ''1''"
proof -
  have "digits (1 * 10 ^ k) = digits 1 @ replicate k CHR ''0''" by (rule digits_times_power) simp
  moreover have "dropWhile (\<lambda>c. c = CHR ''0'') (replicate k CHR ''0'' @ ''1'') = ''1''"
    by (induction k) simp_all
  ultimately show ?thesis by (simp add: strip_zeros_def)
qed

lemma printed_length:
  assumes "s \<le> 10 ^ k" and "1 \<le> k"
  shows "length (strip_zeros (digits s)) \<le> k"
proof (cases "s = 10 ^ k")
  case True
  with assms(2) show ?thesis by (simp add: strip_zeros_power)
next
  case False
  with assms have "length (digits s) \<le> k" by (intro length_digits_lt) simp_all
  with length_strip_zeros [of "digits s"] show ?thesis by simp
qed

subsection \<open>Reading back what is printed\<close>

lemma not_digit [simp]:
  "\<not> is_digit CHR ''.''" "\<not> is_digit CHR ''e''" "\<not> is_digit CHR ''-''" "\<not> is_digit CHR ''+''"
  "\<not> is_digit CHR ''N''" "\<not> is_digit CHR ''I''"
  by (simp_all add: is_digit_def)

lemma is_digit_0 [simp]: "is_digit CHR ''0''"
  by (simp add: is_digit_def)

lemma digit_value_0 [simp]: "digit_value CHR ''0'' = 0"
  by (simp add: digit_value_def)

lemma before_absent: "c \<notin> set s \<Longrightarrow> before c s = s"
  by (induction s) (auto simp: before_def)

lemma after_absent: "c \<notin> set s \<Longrightarrow> after c s = []"
  by (induction s) (auto simp: after_def)

lemma before_split: "c \<notin> set xs \<Longrightarrow> before c (xs @ c # ys) = xs"
  by (induction xs) (auto simp: before_def)

lemma after_split: "c \<notin> set xs \<Longrightarrow> after c (xs @ c # ys) = ys"
  by (induction xs) (auto simp: after_def)

lemma digits_no: "list_all is_digit ds \<Longrightarrow> \<not> is_digit c \<Longrightarrow> c \<notin> set ds"
  by (auto simp: list_all_iff)

lemma digits_value_Nil [simp]: "digits_value [] = 0"
  by (simp add: digits_value_def)

lemma digits_value_append:
  "digits_value (xs @ ys) = digits_value xs * 10 ^ length ys + digits_value ys"
proof (induction ys rule: rev_induct)
  case Nil
  show ?case by simp
next
  case (snoc y ys)
  have "digits_value (xs @ ys @ [y]) = 10 * digits_value (xs @ ys) + digit_value y"
    using digits_value_snoc [of "xs @ ys" y] by simp
  with snoc show ?case by (simp add: algebra_simps)
qed

lemma digits_value_zeros [simp]: "digits_value (replicate z CHR ''0'') = 0"
proof (induction z)
  case 0
  show ?case by simp
next
  case (Suc z)
  have "replicate (Suc z) CHR ''0'' = replicate z CHR ''0'' @ ''0''"
    by (simp add: replicate_append_same)
  with Suc show ?case by (simp only: digits_value_snoc) simp
qed

lemma digits_value_append_zeros:
  "digits_value (ds @ replicate z CHR ''0'') = digits_value ds * 10 ^ z"
  by (simp add: digits_value_append)

lemma digits_value_zeros_append:
  "digits_value (replicate z CHR ''0'' @ ds) = digits_value ds"
  by (simp add: digits_value_append)

lemma read_exponent_digits:
  "read_exponent (''+'' @ digits m) = int m" "read_exponent (''-'' @ digits m) = - int m"
  by (simp_all add: digits_value_digits)

lemma read_decimal_parts:
  assumes "list_all is_digit ip" and "list_all is_digit fp"
  shows "read_decimal (ip @ (if fp = [] then [] else ''.'' @ fp) @ (if ex = [] then [] else ''e'' @ ex))
           = of_nat (digits_value (ip @ fp)) * 10 powi (read_exponent ex - int (length fp))"
proof -
  let ?m = "ip @ (if fp = [] then [] else ''.'' @ fp)"
  from assms(1,2) have e: "CHR ''e'' \<notin> set ?m" by (auto simp: list_all_iff)
  from assms(1) have p: "CHR ''.'' \<notin> set ip" by (auto simp: list_all_iff)
  have m: "before CHR ''e'' (?m @ (if ex = [] then [] else ''e'' @ ex)) = ?m"
    using e before_split [of "CHR ''e''" ?m ex] before_absent [of "CHR ''e''" ?m]
    by (cases "ex = []") simp_all
  have x: "after CHR ''e'' (?m @ (if ex = [] then [] else ''e'' @ ex)) = ex"
    using e after_split [of "CHR ''e''" ?m ex] after_absent [of "CHR ''e''" ?m]
    by (cases "ex = []") simp_all
  have i: "before CHR ''.'' ?m = ip"
    using p before_split [of "CHR ''.''" ip fp] before_absent [of "CHR ''.''" ip]
    by (cases "fp = []") simp_all
  have f: "after CHR ''.'' ?m = fp"
    using p after_split [of "CHR ''.''" ip fp] after_absent [of "CHR ''.''" ip]
    by (cases "fp = []") simp_all
  have "read_decimal (?m @ (if ex = [] then [] else ''e'' @ ex))
          = of_nat (digits_value (ip @ fp)) * 10 powi (read_exponent ex - int (length fp))"
    unfolding read_decimal_def Let_def m x i f ..
  then show ?thesis by simp
qed

lemma read_decimal_whole:
  "list_all is_digit ip \<Longrightarrow> read_decimal ip = of_nat (digits_value ip)"
  using read_decimal_parts [of ip "[]" "[]"] by simp

lemma read_decimal_point:
  "list_all is_digit ip \<Longrightarrow> list_all is_digit fp \<Longrightarrow> fp \<noteq> [] \<Longrightarrow>
   read_decimal (ip @ ''.'' @ fp) = of_nat (digits_value (ip @ fp)) * 10 powi (- int (length fp))"
  using read_decimal_parts [of ip fp "[]"] by simp

lemma read_decimal_exponent:
  "list_all is_digit ip \<Longrightarrow> list_all is_digit fp \<Longrightarrow> ex \<noteq> [] \<Longrightarrow>
   read_decimal (ip @ (if fp = [] then [] else ''.'' @ fp) @ ''e'' @ ex)
     = of_nat (digits_value (ip @ fp)) * 10 powi (read_exponent ex - int (length fp))"
  using read_decimal_parts [of ip fp ex] by simp

lemma read_exponent_signed:
  "read_exponent ((if m < 0 then ''-'' else ''+'') @ digits (nat \<bar>m\<bar>)) = m"
  by (simp add: digits_value_digits)

lemma zeros_digits [simp]: "list_all is_digit (replicate z CHR ''0'')"
  by (induction z) simp_all

lemma read_layout_whole:
  assumes "list_all is_digit ds" and "int (length ds) \<le> n" and "n \<le> 21"
  shows "read_decimal (layout ds n) = of_nat (digits_value ds) * 10 powi (n - int (length ds))"
proof -
  define z where "z = nat (n - int (length ds))"
  from assms(2,3) have "layout ds n = ds @ replicate z CHR ''0''"
    by (simp add: layout_def Let_def z_def)
  moreover have "list_all is_digit (ds @ replicate z CHR ''0'')" using assms(1) by simp
  ultimately have "read_decimal (layout ds n) = of_nat (digits_value ds * 10 ^ z)"
    by (simp only: read_decimal_whole digits_value_append_zeros)
  with assms(2) show ?thesis by (simp add: z_def power_int_def)
qed

lemma read_layout_point:
  assumes "list_all is_digit ds" and "0 < n" and "n < int (length ds)" and "n \<le> 21"
  shows "read_decimal (layout ds n) = of_nat (digits_value ds) * 10 powi (n - int (length ds))"
proof -
  from assms(2-4) have l: "layout ds n = take (nat n) ds @ ''.'' @ drop (nat n) ds"
    by (simp add: layout_def Let_def)
  have d: "list_all is_digit (take (nat n) ds)" "list_all is_digit (drop (nat n) ds)"
    using assms(1) by (auto simp: list_all_iff dest: in_set_takeD in_set_dropD)
  from assms(2,3) have "drop (nat n) ds \<noteq> []" by simp
  with d have "read_decimal (layout ds n)
      = of_nat (digits_value (take (nat n) ds @ drop (nat n) ds)) *
        10 powi (- int (length (drop (nat n) ds)))"
    unfolding l by (rule read_decimal_point)
  with assms(2,3) show ?thesis by simp
qed

lemma read_layout_small:
  assumes "list_all is_digit ds" and "ds \<noteq> []" and "- 6 < n" and "n \<le> 0"
  shows "read_decimal (layout ds n) = of_nat (digits_value ds) * 10 powi (n - int (length ds))"
proof -
  let ?fp = "replicate (nat (- n)) CHR ''0'' @ ds"
  from assms(2-4) have l: "layout ds n = ''0'' @ ''.'' @ ?fp"
    by (cases ds) (simp_all add: layout_def Let_def)
  have "list_all is_digit ''0''" "list_all is_digit ?fp" using assms(1) by simp_all
  moreover have "?fp \<noteq> []" using assms(2) by simp
  ultimately have "read_decimal (layout ds n)
      = of_nat (digits_value (''0'' @ ?fp)) * 10 powi (- int (length ?fp))"
    unfolding l by (rule read_decimal_point)
  moreover have "digits_value (''0'' @ ?fp) = digits_value ds"
    using digits_value_zeros_append [of "Suc (nat (- n))" ds] by simp
  ultimately show ?thesis using assms(4) by (simp add: algebra_simps)
qed

lemma read_layout_exponent:
  assumes "list_all is_digit ds" and "ds \<noteq> []" and "n \<le> - 6 \<or> 21 < n"
  shows "read_decimal (layout ds n) = of_nat (digits_value ds) * 10 powi (n - int (length ds))"
proof -
  let ?ex = "(if n - 1 < 0 then ''-'' else ''+'') @ digits (nat \<bar>n - 1\<bar>)"
  from assms(2) obtain c cs where ds: "ds = c # cs" by (cases ds) auto
  from assms(3) have l: "layout ds n = [c] @ (if cs = [] then [] else ''.'' @ cs) @ ''e'' @ ?ex"
    by (auto simp: layout_def Let_def ds)
  have "list_all is_digit [c]" "list_all is_digit cs" "?ex \<noteq> []"
    using assms(1) by (simp_all add: ds)
  then have "read_decimal (layout ds n)
      = of_nat (digits_value ([c] @ cs)) * 10 powi (read_exponent ?ex - int (length cs))"
    unfolding l by (rule read_decimal_exponent)
  then show ?thesis by (simp only: read_exponent_signed) (simp add: ds algebra_simps)
qed

lemma read_decimal_layout:
  assumes "ds \<noteq> []" and "list_all is_digit ds"
  shows "read_decimal (layout ds n) = of_nat (digits_value ds) * 10 powi (n - int (length ds))"
proof -
  consider "int (length ds) \<le> n" "n \<le> 21" | "0 < n" "n < int (length ds)" "n \<le> 21"
    | "- 6 < n" "n \<le> 0" | "n \<le> - 6 \<or> 21 < n"
    by atomize_elim auto
  then show ?thesis
    using assms
    by cases (auto intro: read_layout_whole read_layout_point read_layout_small
      read_layout_exponent)
qed

lemma strip_zeros_value:
  "digits_value (strip_zeros ds) * 10 ^ (length ds - length (strip_zeros ds)) = digits_value ds"
  using digits_value_append_zeros [of "strip_zeros ds" "length ds - length (strip_zeros ds)"]
  by (simp only: strip_zeros_restore)

lemma strip_zeros_digits: "list_all is_digit ds \<Longrightarrow> list_all is_digit (strip_zeros ds)"
  by (auto simp: strip_zeros_def list_all_iff dest: set_dropWhileD)

lemma strip_zeros_neq_Nil: "0 < digits_value ds \<Longrightarrow> strip_zeros ds \<noteq> []"
  using strip_zeros_value [of ds] by auto

lemma hd_layout:
  assumes "ds \<noteq> []" and "list_all is_digit ds"
  shows "is_digit (hd (layout ds n))"
proof -
  from assms obtain c cs where ds: "ds = c # cs" and c: "is_digit c" by (cases ds) auto
  have "hd (take (nat n) ds) = c" if "0 < n" using that by (cases "nat n") (simp_all add: ds)
  with c show ?thesis by (auto simp: layout_def Let_def ds)
qed

lemma to_string_pos_reads_back:
  assumes rep: "binary64 a = Num a" and pos: "0 < a"
  shows "binary64 (read_decimal (to_string_pos a)) = Num a"
    and "is_digit (hd (to_string_pos a))"
proof -
  obtain s k where sh: "shortest 16 (Suc 0) a = (s, k)" by (cases "shortest 16 (Suc 0) a")
  with rep pos have b: "binary64 (of_nat s * grid k a) = Num a"
    using shortest_rounds_back [of a "Suc 0" 16 s k] by simp
  with pos have s: "0 < s" by (cases "s = 0") simp_all
  define L where "L = length (digits s)"
  define ds where "ds = strip_zeros (digits s)"
  have dig: "list_all is_digit ds" unfolding ds_def by (intro strip_zeros_digits digits_all_digit)
  have ne: "ds \<noteq> []" unfolding ds_def using s by (intro strip_zeros_neq_Nil) (simp add: digits_value_digits)
  have len: "length ds \<le> L" unfolding ds_def L_def by (rule length_strip_zeros)
  have t: "to_string_pos a = layout ds (dec_exp a + int L - int k)"
    by (simp add: to_string_pos_def sh ds_def L_def)
  have "s = digits_value ds * 10 ^ (L - length ds)"
    using strip_zeros_value [of "digits s"] by (simp add: ds_def L_def digits_value_digits)
  then have "(of_nat s :: rat) = of_nat (digits_value ds * 10 ^ (L - length ds))" by (simp only:)
  then have "of_nat s = (of_nat (digits_value ds) :: rat) * 10 ^ (L - length ds)" by simp
  also have "(10 :: rat) ^ (L - length ds) = 10 powi (int L - int (length ds))"
    using len by (simp add: power_int_def)
  finally have "of_nat s * grid k a
      = of_nat (digits_value ds) * (10 powi (int L - int (length ds)) * 10 powi (dec_exp a - int k))"
    by (simp add: grid_def)
  also have "10 powi (int L - int (length ds)) * 10 powi (dec_exp a - int k)
      = (10 :: rat) powi (dec_exp a + int L - int k - int (length ds))"
    by (simp add: power_int_add [symmetric] algebra_simps)
  finally have "read_decimal (to_string_pos a) = of_nat s * grid k a"
    by (simp add: t read_decimal_layout [OF ne dig])
  with b show "binary64 (read_decimal (to_string_pos a)) = Num a" by simp
  from ne dig show "is_digit (hd (to_string_pos a))" unfolding t by (rule hd_layout)
qed

lemma string_to_number_digit:
  "is_digit (hd s) \<Longrightarrow> string_to_number s = binary64 (read_decimal s)"
  "is_digit (hd s) \<Longrightarrow> string_to_number (CHR ''-'' # s) = binary64 (- read_decimal s)"
  by (auto simp: string_to_number_def)

subsection \<open>The first number printed with an exponent\<close>

lemma nearest_lower:
  "lo = a \<Longrightarrow> a < hi \<Longrightarrow> vs = [lo] \<or> vs = [lo, hi] \<Longrightarrow> nearest g a vs = a"
  by (auto simp: nearest_def)

lemma binary64_10_21: "binary64 (10 ^ 21) = Num (10 ^ 21)"
proof -
  have "\<bar>10 ^ 21 :: rat\<bar> < 2 powi 70" by (simp add: two_powi_nat)
  then have "\<bar>10 ^ 21 :: rat\<bar> < huge" by (rule less_huge) simp
  then show ?thesis
    by (intro binary64_grid [of _ "5 ^ 21" 21]) (simp_all add: two_powi_nat)
qed

lemma to_string_pos_power_21:
  assumes a: "a = 10 ^ 21"
  shows "to_string_pos a = ''1e+21''"
proof -
  have b: "binary64 a = Num a" by (simp only: a binary64_10_21)
  have "nat \<lfloor>a\<rfloor> = 1 * 10 ^ 21" by (simp add: a)
  then have "digits (nat \<lfloor>a\<rfloor>) = digits 1 @ replicate 21 CHR ''0''"
    by (simp only: digits_times_power)
  then have d: "dec_exp a = 22" by (simp add: dec_exp_def a)
  then have g: "grid (Suc 0) a = a" by (simp add: grid_def a)
  then have n: "neighbours (Suc 0) a = [a, 2 * a]" by (simp add: neighbours_def Let_def a)
  have "0 < a" by (simp add: a)
  with b have c: "candidates (Suc 0) a = [a] \<or> candidates (Suc 0) a = [a, 2 * a]"
    by (simp add: candidates_def n)
  moreover from \<open>0 < a\<close> c have "nearest a a (candidates (Suc 0) a) = a"
    by (intro nearest_lower [of a _ "2 * a"]) simp_all
  ultimately have "shortest 16 (Suc 0) a = (1, 1)"
    using \<open>0 < a\<close> by (auto simp: numeral_eq_Suc g)
  then show ?thesis
    by (simp add: to_string_pos_def d strip_zeros_def layout_def)
qed

lemmas to_string_pos_10_21 = to_string_pos_power_21 [OF refl]

subsection \<open>Only a whole number prints as its digits\<close>

text \<open>
  A number that prints as the decimal digits of a natural number below
  \<open>10\<^sup>1\<^sup>5\<close> is that number: what is printed reads back as the number printed.
\<close>

lemma to_string_whole_inj:
  assumes "wf_number s" and "to_string s = digits n" and "n < 10 ^ 15"
  shows "s = Num (of_nat n)"
proof -
  note d = digits_all_digit [of n, folded assms(2)]
  show ?thesis
  proof (cases s)
    case (Num r)
    with assms(1) have rep: "binary64 r = Num r" by (simp add: representable_def)
    consider "r = 0" | "0 < r" | "r < 0" by linarith
    then show ?thesis
    proof cases
      case 1
      with assms(2) Num have "digits_value (digits n) = digits_value ''0''"
        by (simp add: to_string_Num)
      also have "digits_value ''0'' = 0" by (simp add: digits_value_def)
      finally have "n = 0" by (simp only: digits_value_digits)
      with 1 Num show ?thesis by simp
    next
      case 2
      with assms(2) Num have "to_string_pos r = digits n" by (simp add: to_string_Num)
      with to_string_pos_reads_back(1) [OF rep 2]
      have "binary64 (of_nat n) = Num r"
        by (simp add: read_decimal_whole digits_all_digit digits_value_digits)
      moreover from assms(3) have "n \<le> 2 ^ 53" by simp
      then have "binary64 (of_nat n) = Num (of_nat n)" by (rule binary64_of_nat)
      ultimately show ?thesis using Num by simp
    next
      case 3
      with d Num show ?thesis by (simp add: to_string_Num is_digit_def)
    qed
  qed (use d in \<open>simp_all add: is_digit_def\<close>)
qed

subsection \<open>Properties of printing\<close>

text \<open>
  Whole numbers below \<open>10\<^sup>1\<^sup>5\<close> print as their decimal digits, without exponent or
  fraction, and reading the digits back gives the number.
\<close>

lemma whole_number_round_trip:
  assumes "n < 10 ^ 15"
  shows "to_string (Num (of_nat n)) = digits n \<and> digits_value (to_string (Num (of_nat n))) = n"
  using assms by (simp add: to_string_of_nat digits_value_digits)

text \<open>
  C13 (roundtrip): reading back what \<open>toString\<close> prints gives the number, for
  every number of the model: a finite binary64 value of either sign, zero,
  \<open>NaN\<close> and the infinities. The digits printed denote a decimal that rounds to
  the value, whether the loop of \<open>shortest\<close> found it with up to 16 digits or
  took the nearest one with 17.
\<close>

theorem to_string_round_trip:
  assumes "wf_number x"
  shows "string_to_number (to_string x) = x"
proof (cases x)
  case (Num r)
  with assms have rep: "binary64 r = Num r" by (simp add: representable_def)
  then have rep': "binary64 (- r) = Num (- r)" by (rule binary64_minus)
  consider "r = 0" | "0 < r" | "0 < - r" by linarith
  then show ?thesis
  proof cases
    case 1
    then show ?thesis
      by (simp add: Num to_string_Num string_to_number_def read_decimal_whole digits_value_def)
  next
    case 2
    with to_string_pos_reads_back [OF rep] show ?thesis
      by (simp add: Num to_string_Num string_to_number_digit)
  next
    case 3
    from to_string_pos_reads_back [OF rep' 3] binary64_minus [of "read_decimal (to_string_pos (- r))" "- r"]
    show ?thesis using 3 by (simp add: Num to_string_Num string_to_number_digit)
  qed
qed (simp_all add: string_to_number_def)

theorem to_string_round_trip_witness:
  "wf_number (lit (95 / 10000)) \<and>
   string_to_number (to_string (lit (95 / 10000))) = lit (95 / 10000)"
  using to_string_round_trip [of "lit (95 / 10000)"] by simp

text \<open>
  C14 (functional): the digits of \<open>toString\<close> are as few as the standard asks.
  When a decimal of \<open>k'\<close> digits, at whatever exponent, rounds to a positive
  number, then the search of \<open>shortest\<close> ends at a length of at most \<open>k'\<close>, and
  the digit string it prints has at most \<open>k'\<close> digits.
\<close>

theorem to_string_digits_minimal:
  assumes "binary64 a = Num a" and "0 < a"
    and "s' < 10 ^ k'" and "binary64 (of_nat s' * 10 powi m) = Num a"
  shows "snd (shortest 16 1 a) \<le> k' \<and>
         length (strip_zeros (digits (fst (shortest 16 1 a)))) \<le> k'"
proof -
  obtain s k where sh: "shortest 16 1 a = (s, k)" by (cases "shortest 16 1 a")
  from assms(1,2) sh assms(3,4) have k: "k \<le> k'" by (rule shortest_minimal)
  from assms(1,2) sh have "1 \<le> k" using shortest_rounds_back [of a 1 16 s k] by simp
  moreover from assms(2) sh have "s \<le> 10 ^ k" by (rule shortest_bound)
  ultimately have "length (strip_zeros (digits s)) \<le> k" by (intro printed_length)
  with k sh show ?thesis by simp
qed

theorem to_string_digits_minimal_witness:
  "binary64 (5764607523034235 / 2 ^ 59) = Num (5764607523034235 / 2 ^ 59) \<and>
   binary64 (of_nat 1 * 10 powi (- 2)) = Num (5764607523034235 / 2 ^ 59) \<and>
   length (strip_zeros (digits (fst (shortest 16 1 (5764607523034235 / 2 ^ 59))))) \<le> 1"
proof -
  have "(of_nat 1 :: rat) * 10 powi (- 2) = 1 / 100" by (simp add: power_int_minus)
  moreover have "binary64 (1 / 100) = Num (5764607523034235 / 2 ^ 59)"
    by (simp add: binary64_normal [where e = "- 7"] round_half_even_def)
  ultimately have d: "binary64 (of_nat 1 * 10 powi (- 2)) = Num (5764607523034235 / 2 ^ 59)"
    by (simp only:)
  then have r: "binary64 (5764607523034235 / 2 ^ 59) = Num (5764607523034235 / 2 ^ 59)"
    by (rule binary64_idem)
  have "(0 :: rat) < 5764607523034235 / 2 ^ 59" and "(1 :: nat) < 10 ^ 1" by simp_all
  with r have "length (strip_zeros (digits (fst (shortest 16 1 (5764607523034235 / 2 ^ 59))))) \<le> 1"
    using d by (intro to_string_digits_minimal [THEN conjunct2])
  with r d show ?thesis by (simp only:)
qed

end
