(* ===== verification/Price_Presenter.thy ===== *)
theory Price_Presenter
  imports JS_Format
begin

text \<open>
  The Price Presenter: the table \<open>exchangeRates\<close>, \<open>defaultCurrency\<close> and
  \<open>convertCurrency\<close> (\<open>TicketList.tsx\<close>, lines 30-36 and 96-100).

  \<open>exchangeRates[targetCurrency]\<close> is a property read on an object literal: it
  finds the three own properties, and besides them the members every object
  inherits from \<open>Object.prototype\<close>, which are functions or objects and hence
  truthy. The read therefore has three outcomes (\<open>js_value\<close>), \<open>||\<close> selects by
  truthiness, and the multiplication converts its right operand to a number.
\<close>

datatype js_value = Number number | Undefined | Object

definition exchangeRates :: "(js_string \<times> number) list" where
  "exchangeRates = [(''RUB'', lit 1), (''USD'', lit (1 / 100)), (''EUR'', lit (95 / 10000))]"

definition defaultCurrency :: js_string where
  "defaultCurrency = ''RUB''"

text \<open>The property names of \<open>Object.prototype\<close>.\<close>

definition object_prototype_keys :: "js_string list" where
  "object_prototype_keys =
     [''constructor'', ''__defineGetter__'', ''__defineSetter__'', ''hasOwnProperty'',
      ''__lookupGetter__'', ''__lookupSetter__'', ''isPrototypeOf'',
      ''propertyIsEnumerable'', ''toString'', ''valueOf'', ''__proto__'',
      ''toLocaleString'']"

definition get_property :: "(js_string \<times> number) list \<Rightarrow> js_string \<Rightarrow> js_value" where
  "get_property obj key =
     (case map_of obj key of
        Some v \<Rightarrow> Number v
      | None \<Rightarrow> if key \<in> set object_prototype_keys then Object else Undefined)"

fun truthy :: "js_value \<Rightarrow> bool" where
  "truthy (Number n) = to_boolean n"
| "truthy Undefined = False"
| "truthy Object = True"

definition js_or :: "js_value \<Rightarrow> js_value \<Rightarrow> js_value" where
  "js_or a b = (if truthy a then a else b)"

text \<open>
  \<open>ToNumber\<close>: \<open>undefined\<close> gives \<open>NaN\<close>; an inherited member is converted through
  its string form, which is no numeral, and gives \<open>NaN\<close> as well.
\<close>

fun to_number :: "js_value \<Rightarrow> number" where
  "to_number (Number n) = n"
| "to_number Undefined = NaN"
| "to_number Object = NaN"

definition convertCurrency :: "number \<Rightarrow> js_string \<Rightarrow> js_string" where
  "convertCurrency price targetCurrency =
     (let rate = js_or (get_property exchangeRates targetCurrency) (Number (lit 1))
      in toFixed 2 (js_times price (to_number rate)))"

text \<open>The rate the specification's table gives a currency code: 1 when it has none.\<close>

definition rate_of :: "js_string \<Rightarrow> number" where
  "rate_of c = (case map_of exchangeRates c of Some r \<Rightarrow> r | None \<Rightarrow> lit 1)"

definition currency_codes :: "js_string list" where
  "currency_codes = map fst exchangeRates"

text \<open>The binary64 values next to 0.01 and to 0.0095.\<close>

definition double_0_01 :: rat where
  "double_0_01 = 5764607523034235 / 2 ^ 59"

definition double_0_0095 :: rat where
  "double_0_0095 = 5476377146882523 / 2 ^ 59"

subsection \<open>The rates as binary64 values\<close>

lemma rate_USD: "lit (1 / 100) = Num double_0_01"
  by (simp add: lit_def double_0_01_def binary64_normal [where e = "- 7"] round_half_even_def)

lemma rate_EUR: "lit (95 / 10000) = Num double_0_0095"
  by (simp add: lit_def double_0_0095_def binary64_normal [where e = "- 7"] round_half_even_def)

lemma rate_EUR_reduced: "lit (19 / 2000) = Num double_0_0095"
  using rate_EUR by simp

lemma rates_nonzero [simp]: "double_0_01 \<noteq> 0" "double_0_0095 \<noteq> 0"
  by (simp_all add: double_0_01_def double_0_0095_def)

lemma rates_near:
  "\<bar>double_0_01 - 1 / 100\<bar> \<le> (1 / 100) / 2 ^ 53"
  "\<bar>double_0_0095 - 95 / 10000\<bar> \<le> (95 / 10000) / 2 ^ 53"
  by (simp_all add: double_0_01_def double_0_0095_def)

lemma map_of_exchangeRates:
  "map_of exchangeRates c =
     (if c = ''RUB'' then Some (Num 1)
      else if c = ''USD'' then Some (Num double_0_01)
      else if c = ''EUR'' then Some (Num double_0_0095)
      else None)"
  by (simp add: exchangeRates_def rate_USD rate_EUR_reduced)

lemma set_currency_codes [simp]: "set currency_codes = {''RUB'', ''USD'', ''EUR''}"
  by (auto simp: currency_codes_def exchangeRates_def)

lemma rates_truthy: "map_of exchangeRates c = Some r \<Longrightarrow> to_boolean r"
  by (auto simp: map_of_exchangeRates split: if_splits)

lemma own_not_inherited: "c \<in> set currency_codes \<Longrightarrow> c \<notin> set object_prototype_keys"
  by (auto simp: object_prototype_keys_def)

text \<open>
  For a code of the table the property read yields its rate, a binary64 value
  other than zero.
\<close>

lemma own_rate:
  assumes "c \<in> set currency_codes"
  shows "\<exists>r. get_property exchangeRates c = Number (Num r) \<and> r \<noteq> 0 \<and> representable r"
proof -
  have "wf_number (Num 1)" "wf_number (Num double_0_01)" "wf_number (Num double_0_0095)"
    using wf_lit [of 1] wf_lit [of "1 / 100"] wf_lit [of "95 / 10000"]
    by (simp_all only: lit_1 rate_USD rate_EUR)
  with assms show ?thesis
    by (auto simp: get_property_def map_of_exchangeRates)
qed

subsection \<open>The rate a code selects\<close>

lemma selected_rate_own:
  "map_of exchangeRates c = Some r \<Longrightarrow>
   js_or (get_property exchangeRates c) (Number (Num 1)) = Number r"
  by (simp add: js_or_def get_property_def rates_truthy)

lemma selected_rate_inherited:
  "map_of exchangeRates c = None \<Longrightarrow> c \<in> set object_prototype_keys \<Longrightarrow>
   js_or (get_property exchangeRates c) (Number (Num 1)) = Object"
  by (simp add: js_or_def get_property_def)

lemma selected_rate_missing:
  "map_of exchangeRates c = None \<Longrightarrow> c \<notin> set object_prototype_keys \<Longrightarrow>
   js_or (get_property exchangeRates c) (Number (Num 1)) = Number (Num 1)"
  by (simp add: js_or_def get_property_def)

lemma inherited_not_own: "c \<in> set object_prototype_keys \<Longrightarrow> map_of exchangeRates c = None"
  by (auto simp: object_prototype_keys_def map_of_exchangeRates)

lemma convertCurrency_rate_of:
  "c \<notin> set object_prototype_keys \<Longrightarrow>
   convertCurrency p c = toFixed 2 (js_times p (rate_of c))"
  by (cases "map_of exchangeRates c")
     (simp_all add: convertCurrency_def rate_of_def selected_rate_own selected_rate_missing)

lemma convertCurrency_inherited:
  "c \<in> set object_prototype_keys \<Longrightarrow> convertCurrency p c = ''NaN''"
  by (cases p) (simp_all add: convertCurrency_def selected_rate_inherited inherited_not_own)

subsection \<open>Evaluating a conversion\<close>

lemma times_one: "\<bar>n\<bar> \<le> 2 ^ 53 \<Longrightarrow> js_times (Num (of_int n)) (Num 1) = Num (of_int n)"
  by (simp add: js_times_Num binary64_of_int)

lemma toFixed_small:
  "\<bar>r\<bar> < 10 ^ 21 \<Longrightarrow>
   toFixed 2 (Num r) = (if r < 0 then ''-'' else []) @ fixed_digits 2 \<bar>r\<bar>"
  by (simp add: Let_def)

lemma toFixed_nat:
  assumes "p < 10 ^ 21"
  shows "toFixed 2 (Num (of_nat p)) = digits p @ ''.00''"
proof -
  from assms have "(of_nat p :: rat) < of_nat (10 ^ 21)" by (simp only: of_nat_less_iff)
  then have "\<bar>of_nat p :: rat\<bar> < 10 ^ 21" by simp
  moreover have "\<lfloor>(of_nat p :: rat) * 100 + 1 / 2\<rfloor> = int (p * 100)"
    by (rule floor_unique) simp_all
  then have "nat \<lfloor>(of_nat p :: rat) * 100 + 1 / 2\<rfloor> = p * 100"
    by (simp only: nat_int)
  ultimately show ?thesis by (simp add: toFixed_small fixed_digits_2)
qed

subsection \<open>Prices of whole amounts\<close>

lemma toFixed_near:
  assumes "0 \<le> y" and "\<bar>100 * y - of_nat n\<bar> < 1 / 2" and "n < 10 ^ 22"
  shows "toFixed 2 (Num y) = two_decimals n"
proof -
  from assms(2) have "of_nat n \<le> y * 100 + 1 / 2" and "y * 100 + 1 / 2 < of_nat n + 1"
    by linarith+
  then have "\<lfloor>y * 100 + 1 / 2\<rfloor> = int n"
    by (intro floor_unique) simp_all
  then have n: "nat \<lfloor>y * 100 + 1 / 2\<rfloor> = n" by simp
  have "100 * y < of_nat n + 1 / 2" using assms(2) by linarith
  also have "(of_nat n :: rat) \<le> of_nat (10 ^ 22)" using assms(3) by (simp only: of_nat_le_iff)
  finally have "100 * y < 10 ^ 22 + 1 / 2" by simp
  then have "\<bar>y\<bar> < 10 ^ 21" using assms(1) by simp
  with assms(1) show ?thesis
    by (simp add: toFixed_small fixed_digits_2 n two_decimals_def Let_def)
qed

lemma price_text:
  assumes p: "0 < p" and r: "2 powi (- 7) \<le> r"
    and x: "of_nat p * r < 2 powi h" and h: "h \<le> 46"
    and near: "100 * 2 powi (h - 54) + \<bar>100 * (of_nat p * r) - of_nat n\<bar> < 1 / 2"
    and n: "n < 10 ^ 22"
  shows "toFixed 2 (js_times (Num (of_nat p)) (Num r)) = two_decimals n"
proof -
  let ?x = "of_nat p * r"
  have r0: "0 < r" using r two_powi_pos [of "- 7"] by linarith
  have "1 * r \<le> of_nat p * r" using p r0 by (intro mult_right_mono) simp_all
  then have rx: "r \<le> ?x" by simp
  then have ax: "\<bar>?x\<bar> = ?x" using r0 by simp
  have lo: "2 powi (- 7) \<le> \<bar>?x\<bar>" unfolding ax using r rx by (rule order_trans)
  have hi: "\<bar>?x\<bar> < 2 powi h" unfolding ax by (rule x)
  have "- 1022 \<le> (- 7 :: int)" and "h \<le> 1023" using h by simp_all
  with lo hi obtain y where y: "binary64 ?x = Num y" and e: "\<bar>y - ?x\<bar> \<le> 2 powi (h - 54)"
    by (rule binary64_finite)
  have "(2::rat) powi (h - 54) \<le> 2 powi (- 8)" by (subst two_powi_le_iff) (use h in simp)
  then have "\<bar>y - ?x\<bar> \<le> 2 powi (- 8)" using e by linarith
  moreover have "(2::rat) powi (- 8) < 2 powi (- 7)" by simp
  ultimately have "0 \<le> y" using lo unfolding ax by linarith
  moreover have "\<bar>100 * y - of_nat n\<bar> < 1 / 2"
  proof -
    have "\<bar>100 * y - m\<bar> \<le> 100 * \<bar>y - z\<bar> + \<bar>100 * z - m\<bar>" for z m :: rat
      by (auto simp: abs_if)
    then have "\<bar>100 * y - of_nat n\<bar> \<le> 100 * \<bar>y - ?x\<bar> + \<bar>100 * ?x - of_nat n\<bar>" .
    also have "\<dots> \<le> 100 * 2 powi (h - 54) + \<bar>100 * ?x - of_nat n\<bar>" using e by simp
    also note near
    finally show ?thesis .
  qed
  ultimately have "toFixed 2 (Num y) = two_decimals n" using n by (rule toFixed_near)
  then show ?thesis by (simp add: js_times_Num y)
qed

lemma tie_mod:
  fixes p :: nat
  assumes "(19 * p + 10) mod 20 = 0"
  shows "p mod 20 = 10"
proof -
  have "20 dvd 19 * p + 10" using assms by (simp only: dvd_eq_mod_eq_0)
  moreover have "(19 * p + 10) + (p + 10) = 20 * (p + 1)" by simp
  then have "20 dvd (19 * p + 10) + (p + 10)" by (simp only: dvd_triv_left)
  ultimately have "20 dvd p + 10" by (simp only: dvd_add_right_iff)
  then obtain k where k: "p + 10 = 20 * k" by (rule dvdE)
  then have "k \<noteq> 0" by (cases k) simp_all
  then obtain j where "k = Suc j" by (cases k) simp_all
  with k have "p = 10 + 20 * j" by simp
  then show ?thesis by simp
qed

lemma nearest_twentieth:
  assumes "p mod 20 \<noteq> 10"
  shows "\<bar>19 * of_nat p / 20 - of_nat ((19 * p + 10) div 20) :: rat\<bar> \<le> 9 / 20"
proof -
  define n m where "n = (19 * p + 10) div 20" and "m = (19 * p + 10) mod 20"
  have "20 * n + m = 19 * p + 10" unfolding n_def m_def by (rule mult_div_mod_eq)
  then have "(of_nat (20 * n + m) :: rat) = of_nat (19 * p + 10)" by (rule arg_cong)
  then have "20 * of_nat n + of_nat m = 19 * (of_nat p :: rat) + 10"
    by (simp only: of_nat_add of_nat_mult of_nat_numeral)
  then have "19 * (of_nat p :: rat) = 20 * of_nat n + (of_nat m - 10)" by linarith
  then have e: "19 * of_nat p / 20 - (of_nat n :: rat) = (of_nat m - 10) / 20"
    by (simp only: add_divide_distrib)
  have "m \<noteq> 0"
  proof
    assume "m = 0"
    then have "(19 * p + 10) mod 20 = 0" by (simp only: m_def)
    then have "p mod 20 = 10" by (rule tie_mod)
    with assms show False by contradiction
  qed
  moreover have "m < 20" by (simp add: m_def)
  ultimately have "1 \<le> m" "m \<le> 19" by simp_all
  then have "(of_nat 1 :: rat) \<le> of_nat m" "(of_nat m :: rat) \<le> of_nat 19"
    by (simp_all only: of_nat_le_iff)
  then have "\<bar>(of_nat m - 10) / 20 :: rat\<bar> \<le> 9 / 20" by (simp add: abs_le_iff)
  then show ?thesis unfolding n_def [symmetric] e .
qed

subsection \<open>Prices beyond the two-decimal format\<close>

lemma binary64_below_10_21: "binary64 (10 ^ 21 - 2 ^ 17) = Num (10 ^ 21 - 2 ^ 17)"
proof -
  have "\<bar>10 ^ 21 - 2 ^ 17 :: rat\<bar> < 2 powi 70" by (simp add: two_powi_nat)
  then have "\<bar>10 ^ 21 - 2 ^ 17 :: rat\<bar> < huge" by (rule less_huge) simp
  then show ?thesis
    by (intro binary64_grid [of _ "5 ^ 21 * 16 - 1" 17]) (simp_all add: two_powi_nat)
qed

lemmas binary64_at_10_21 = binary64_10_21 [simplified] binary64_below_10_21 [simplified]

lemma rates_pos [simp]: "0 < double_0_01" "0 < double_0_0095"
  by (simp_all add: double_0_01_def double_0_0095_def)

lemma rate_of_pos: "\<exists>r. rate_of c = Num r \<and> 0 < r"
  by (simp add: rate_of_def map_of_exchangeRates)

lemma convertCurrency_RUB: "convertCurrency p ''RUB'' = toFixed 2 (js_times p (Num 1))"
  by (simp add: convertCurrency_rate_of object_prototype_keys_def rate_of_def
      map_of_exchangeRates)

subsection \<open>Properties of the Price Presenter\<close>

text \<open>
  C4 (functional): for every currency code that is not the name of a member
  inherited from \<open>Object.prototype\<close>, the display string is the product of the
  price and the rate of the table, or the price itself when the table has no
  such code, printed with two fraction digits.
\<close>

theorem convertCurrency_table:
  assumes "c \<notin> set object_prototype_keys"
  shows "convertCurrency p c =
           toFixed 2 (js_times p (case map_of exchangeRates c of Some r \<Rightarrow> r | None \<Rightarrow> lit 1))"
  using assms by (simp add: convertCurrency_rate_of rate_of_def)

theorem convertCurrency_table_witness:
  "''GBP'' \<notin> set object_prototype_keys \<and> convertCurrency (Num 12400) ''GBP'' = ''12400.00''"
proof -
  have a: "''GBP'' \<notin> set object_prototype_keys" by (simp add: object_prototype_keys_def)
  have "convertCurrency (Num 12400) ''GBP'' = toFixed 2 (js_times (Num 12400) (Num 1))"
    using convertCurrency_table [OF a, of "Num 12400"] by (simp add: map_of_exchangeRates)
  also have "\<dots> = toFixed 2 (Num (of_nat 12400))" using times_one [of 12400] by simp
  also have "\<dots> = ''12400.00''" by (subst toFixed_nat) simp_all
  finally show ?thesis using a by simp
qed

text \<open>
  C8 (functional): the examples of the specification. A price of 1000 is shown
  as 1000.00 in the canonical currency, as 10.00 at the rate 0.01, as 9.50 at
  the rate 0.0095, and as 1000.00 for a code the table does not have.
\<close>

theorem price_examples:
  "convertCurrency (lit 1000) ''RUB'' = ''1000.00'' \<and>
   convertCurrency (lit 1000) ''USD'' = ''10.00'' \<and>
   convertCurrency (lit 1000) ''EUR'' = ''9.50'' \<and>
   convertCurrency (lit 1000) ''XXX'' = ''1000.00''"
proof -
  have keys: "''RUB'' \<notin> set object_prototype_keys" "''USD'' \<notin> set object_prototype_keys"
    "''EUR'' \<notin> set object_prototype_keys" "''XXX'' \<notin> set object_prototype_keys"
    by (simp_all add: object_prototype_keys_def)
  have one: "js_times (Num 1000) (Num 1) = Num 1000" using times_one [of 1000] by simp
  have usd: "js_times (Num 1000) (Num double_0_01) = Num 10"
    by (simp add: js_times_Num double_0_01_def binary64_normal [where e = 3]
        round_half_even_def)
  have eur: "js_times (Num 1000) (Num double_0_0095) = Num (19 / 2)"
    by (simp add: js_times_Num double_0_0095_def binary64_normal [where e = 3]
        round_half_even_def)
  show ?thesis
    by (simp add: convertCurrency_rate_of keys rate_of_def map_of_exchangeRates
        one usd eur toFixed_small fixed_digits_2)
qed

text \<open>
  C10 (error): a currency code that names a member every object inherits
  (\<open>toString\<close>, \<open>constructor\<close>, ...) does not fall back to the rate 1: the
  inherited member is taken as the rate and the display string is \<open>NaN\<close>.
\<close>

theorem inherited_key_NaN:
  assumes "c \<in> set object_prototype_keys"
  shows "convertCurrency p c = ''NaN''"
  using assms by (rule convertCurrency_inherited)

theorem inherited_key_NaN_witness:
  "''toString'' \<in> set object_prototype_keys \<and> convertCurrency (Num 1000) ''toString'' = ''NaN''"
proof -
  have a: "''toString'' \<in> set object_prototype_keys" by (simp add: object_prototype_keys_def)
  from inherited_key_NaN [OF a] a show ?thesis by simp
qed

text \<open>
  A whole price up to \<open>2\<^sup>5\<^sup>3\<close> is shown in the canonical
  currency as its decimal digits followed by \<open>.00\<close>.
\<close>

lemma canonical_price_exact:
  assumes "p \<le> 2 ^ 53"
  shows "convertCurrency (Num (of_nat p)) ''RUB'' = digits p @ ''.00''"
proof -
  have "''RUB'' \<notin> set object_prototype_keys" by (simp add: object_prototype_keys_def)
  then have "convertCurrency (Num (of_nat p)) ''RUB'' = toFixed 2 (js_times (Num (of_nat p)) (Num 1))"
    by (simp add: convertCurrency_rate_of rate_of_def map_of_exchangeRates)
  also have "\<dots> = toFixed 2 (Num (of_nat p))" using assms times_one [of "int p"] by simp
  also have "\<dots> = digits p @ ''.00''" using assms by (intro toFixed_nat) simp
  finally show ?thesis .
qed

text \<open>
  C29 (bounds): a finite amount below \<open>10\<^sup>2\<^sup>1\<close> is printed as a sign, the digits
  of an integer part, a point and exactly two fraction digits, and the printed
  amount differs from the amount by at most half a hundredth.
\<close>

theorem toFixed_two_digits:
  assumes "\<bar>r\<bar> < 10 ^ 21"
  shows "\<exists>n. toFixed 2 (Num r) =
             (if r < 0 then ''-'' else []) @ digits (n div 100) @ ''.'' @
             [digit_char (n div 10 mod 10), digit_char (n mod 10)] \<and>
             \<bar>of_nat n / 100 - \<bar>r\<bar>\<bar> \<le> 1 / 200"
proof -
  let ?n = "nat \<lfloor>\<bar>r\<bar> * 100 + 1 / 2\<rfloor>"
  define f :: rat where "f = of_int \<lfloor>\<bar>r\<bar> * 100 + 1 / 2\<rfloor>"
  have "0 \<le> \<lfloor>\<bar>r\<bar> * 100 + 1 / 2\<rfloor>" by simp
  then have n: "(of_nat ?n :: rat) = f" by (simp add: f_def)
  have "f \<le> \<bar>r\<bar> * 100 + 1 / 2" and "\<bar>r\<bar> * 100 + 1 / 2 < f + 1"
    unfolding f_def by linarith+
  then have "\<bar>f - \<bar>r\<bar> * 100\<bar> \<le> 1 / 2" by linarith
  then have "\<bar>f / 100 - \<bar>r\<bar>\<bar> \<le> 1 / 200" by linarith
  then have "\<bar>of_nat ?n / 100 - \<bar>r\<bar>\<bar> \<le> 1 / 200" by (simp only: n)
  with assms show ?thesis
    by (intro exI [of _ ?n]) (simp add: toFixed_small fixed_digits_2 Let_def)
qed

theorem toFixed_two_digits_witness:
  "\<bar>- (19 / 2) :: rat\<bar> < 10 ^ 21 \<and> toFixed 2 (Num (- (19 / 2))) = ''-9.50''"
proof -
  have "\<bar>- (19 / 2) :: rat\<bar> < 10 ^ 21" by simp
  from toFixed_two_digits [OF this] obtain n where
    "toFixed 2 (Num (- (19 / 2))) =
       ''-'' @ digits (n div 100) @ ''.'' @ [digit_char (n div 10 mod 10), digit_char (n mod 10)]"
    by auto
  moreover have "toFixed 2 (Num (- (19 / 2))) = ''-9.50''"
    by (simp add: toFixed_small fixed_digits_2)
  ultimately show ?thesis by simp
qed

text \<open>
  C32 (functional): a tie at the third decimal is decided by the binary value
  of the product and not by a decimal rule. Fifty units at the rate 0.0095 are
  0.475 exactly, but the product of the doubles lies below it and is shown as
  0.47; ten units, 0.095 exactly, are shown as 0.10.
\<close>

theorem tie_follows_binary_value:
  "convertCurrency (lit 50) ''EUR'' = ''0.47'' \<and> convertCurrency (lit 10) ''EUR'' = ''0.10''"
proof -
  have key: "''EUR'' \<notin> set object_prototype_keys" by (simp add: object_prototype_keys_def)
  have a: "js_times (Num 50) (Num double_0_0095) = Num (4278419646001971 / 2 ^ 53)"
    by (simp add: js_times_Num double_0_0095_def binary64_normal [where e = "- 2"]
        round_half_even_def)
  have b: "js_times (Num 10) (Num double_0_0095) = Num (3422735716801577 / 2 ^ 55)"
    by (simp add: js_times_Num double_0_0095_def binary64_normal [where e = "- 4"]
        round_half_even_def)
  show ?thesis
    by (simp add: convertCurrency_rate_of key rate_of_def map_of_exchangeRates
        a b toFixed_small fixed_digits_2)
qed

text \<open>
  C19 (functional): a whole price up to \<open>10\<^sup>1\<^sup>5\<close> is shown in USD as exactly one
  hundredth of it, written with two decimals: neither the rounding of the rate
  0.01 to a double nor the rounding of the product changes a digit.
\<close>

theorem usd_price_exact:
  assumes "p \<le> 10 ^ 15"
  shows "convertCurrency (Num (of_nat p)) ''USD'' = two_decimals p"
proof (cases "p = 0")
  case True
  have "''USD'' \<notin> set object_prototype_keys" by (simp add: object_prototype_keys_def)
  then show ?thesis
    using True
    by (simp add: convertCurrency_rate_of rate_of_def map_of_exchangeRates js_times_Num
        toFixed_small fixed_digits_2 two_decimals_def)
next
  case False
  have key: "''USD'' \<notin> set object_prototype_keys" by (simp add: object_prototype_keys_def)
  have b: "(of_nat p :: rat) \<le> 10 ^ 15" using assms by (metis of_nat_le_iff of_nat_numeral of_nat_power)
  have d: "100 * (of_nat p * double_0_01) - of_nat p = of_nat p * (12 / 2 ^ 59)"
    by (simp add: double_0_01_def field_simps)
  have "toFixed 2 (js_times (Num (of_nat p)) (Num double_0_01)) = two_decimals p"
  proof (rule price_text [where h = 44])
    show "0 < p" using False by simp
    show "2 powi (- 7) \<le> double_0_01" by (simp add: double_0_01_def power_int_minus)
    have "of_nat p * double_0_01 \<le> 10 ^ 15 * double_0_01"
      using b by (intro mult_right_mono) (simp_all add: double_0_01_def)
    also have "\<dots> < 2 powi 44" by (simp add: double_0_01_def)
    finally show "of_nat p * double_0_01 < 2 powi 44" .
    show "(44::int) \<le> 46" by simp
    have "\<bar>of_nat p * (12 / 2 ^ 59) :: rat\<bar> \<le> 10 ^ 15 * (12 / 2 ^ 59)"
      using b by (simp add: abs_mult)
    then show "100 * 2 powi (44 - 54) + \<bar>100 * (of_nat p * double_0_01) - of_nat p\<bar> < 1 / 2"
      unfolding d by (simp add: power_int_minus)
    show "p < 10 ^ 22" using assms by (rule le_less_trans) simp
  qed
  then show ?thesis
    by (simp add: convertCurrency_rate_of key rate_of_def map_of_exchangeRates)
qed

theorem usd_price_exact_witness:
  "(12399 :: nat) \<le> 10 ^ 15 \<and> convertCurrency (Num (of_nat 12399)) ''USD'' = ''123.99''"
  using usd_price_exact [of 12399] by (simp add: two_decimals_def)

text \<open>
  C20 (functional): a whole price \<open>p\<close> up to \<open>10\<^sup>1\<^sup>4\<close> is shown in EUR as
  \<open>0.0095 p\<close> rounded to the nearest hundredth, unless \<open>0.0095 p\<close> lies exactly
  between two hundredths, which is when \<open>p mod 20 = 10\<close>.
\<close>

theorem eur_price_rounded:
  assumes "p \<le> 10 ^ 14" and "p mod 20 \<noteq> 10"
  shows "convertCurrency (Num (of_nat p)) ''EUR'' = two_decimals ((19 * p + 10) div 20)"
proof (cases "p = 0")
  case True
  have "''EUR'' \<notin> set object_prototype_keys" by (simp add: object_prototype_keys_def)
  then show ?thesis
    using True
    by (simp add: convertCurrency_rate_of rate_of_def map_of_exchangeRates js_times_Num
        toFixed_small fixed_digits_2 two_decimals_def)
next
  case False
  let ?n = "(19 * p + 10) div 20"
  have key: "''EUR'' \<notin> set object_prototype_keys" by (simp add: object_prototype_keys_def)
  have b: "(of_nat p :: rat) \<le> 10 ^ 14"
    using assms(1) by (metis of_nat_le_iff of_nat_numeral of_nat_power)
  have d: "100 * (of_nat p * double_0_0095) - of_nat ?n
             = (19 * of_nat p / 20 - of_nat ?n) - of_nat p * (68 / (5 * 2 ^ 59))"
    by (simp add: double_0_0095_def field_simps)
  have "toFixed 2 (js_times (Num (of_nat p)) (Num double_0_0095)) = two_decimals ?n"
  proof (rule price_text [where h = 40])
    show "0 < p" using False by simp
    show "2 powi (- 7) \<le> double_0_0095" by (simp add: double_0_0095_def power_int_minus)
    have "of_nat p * double_0_0095 \<le> 10 ^ 14 * double_0_0095"
      using b by (intro mult_right_mono) (simp_all add: double_0_0095_def)
    also have "\<dots> < 2 powi 40" by (simp add: double_0_0095_def)
    finally show "of_nat p * double_0_0095 < 2 powi 40" .
    show "(40::int) \<le> 46" by simp
    have "\<bar>of_nat p * (68 / (5 * 2 ^ 59)) :: rat\<bar> \<le> 10 ^ 14 * (68 / (5 * 2 ^ 59))"
      using b by (simp add: abs_mult)
    moreover note nearest_twentieth [OF assms(2)]
    ultimately have "\<bar>100 * (of_nat p * double_0_0095) - of_nat ?n\<bar>
                       \<le> 9 / 20 + 10 ^ 14 * (68 / (5 * 2 ^ 59))"
      unfolding d by linarith
    then show "100 * 2 powi (40 - 54) + \<bar>100 * (of_nat p * double_0_0095) - of_nat ?n\<bar> < 1 / 2"
      by (simp add: power_int_minus)
    have "?n \<le> 19 * p + 10" by simp
    also have "\<dots> < 10 ^ 22" using assms(1) by simp
    finally show "?n < 10 ^ 22" .
  qed
  then show ?thesis
    by (simp add: convertCurrency_rate_of key rate_of_def map_of_exchangeRates)
qed

theorem eur_price_rounded_witness:
  "(12345 :: nat) \<le> 10 ^ 14 \<and> (12345 :: nat) mod 20 \<noteq> 10 \<and>
   convertCurrency (Num (of_nat 12345)) ''EUR'' = ''117.28''"
  using eur_price_rounded [of 12345] by (simp add: two_decimals_def)

text \<open>
  C30 (bounds): the two-decimal format ends at \<open>10\<^sup>2\<^sup>1\<close>. The largest binary64
  value below it, \<open>10\<^sup>2\<^sup>1 - 2\<^sup>1\<^sup>7\<close>, is still printed with all its digits and two
  decimals; \<open>10\<^sup>2\<^sup>1\<close> itself is printed by \<open>toString\<close>, in exponent notation and
  with no fraction digits.
\<close>

theorem two_decimals_end_at_10_21:
  "convertCurrency (lit (10 ^ 21 - 2 ^ 17)) ''RUB'' = ''999999999999999868928.00'' \<and>
   convertCurrency (lit (10 ^ 21)) ''RUB'' = ''1e+21''"
proof -
  have "convertCurrency (lit (10 ^ 21 - 2 ^ 17)) ''RUB''
          = toFixed 2 (Num (of_nat 999999999999999868928))"
    by (simp add: convertCurrency_RUB lit_def binary64_at_10_21 js_times_Num)
  then have "convertCurrency (lit (10 ^ 21 - 2 ^ 17)) ''RUB'' = ''999999999999999868928.00''"
    using toFixed_nat [of 999999999999999868928] by simp
  moreover have "convertCurrency (lit (10 ^ 21)) ''RUB'' = ''1e+21''"
    by (simp add: convertCurrency_RUB lit_def binary64_at_10_21 js_times_Num
        to_string_pos_10_21 [simplified])
  ultimately show ?thesis by simp
qed

text \<open>
  C31 (error): for a currency code that is not the name of a member every
  object inherits, a price that is not finite is shown by its name, whatever
  the rate: \<open>NaN\<close>, \<open>Infinity\<close> or \<open>-Infinity\<close>. (A JSON number such as
  \<open>1e999\<close> is read as an infinity.)
\<close>

theorem non_finite_price:
  assumes "cur \<notin> set object_prototype_keys"
  shows "convertCurrency NaN cur = ''NaN'' \<and> convertCurrency PosInf cur = ''Infinity'' \<and>
         convertCurrency NegInf cur = ''-Infinity''"
  using rate_of_pos [of cur] assms by (auto simp: convertCurrency_rate_of signed_inf_def)

theorem non_finite_price_witness:
  "''EUR'' \<notin> set object_prototype_keys \<and> convertCurrency NaN ''EUR'' = ''NaN'' \<and>
   convertCurrency PosInf ''EUR'' = ''Infinity'' \<and> convertCurrency NegInf ''EUR'' = ''-Infinity''"
  using non_finite_price [of "''EUR''"] by (simp add: object_prototype_keys_def)

end
