(* ===== verification/Ticket_List.thy ===== *)
theory Ticket_List
  imports Filter_Engine Price_Presenter "HOL-Library.While_Combinator"
begin

text \<open>
  The component \<open>TicketList\<close> as a state machine (\<open>TicketList.tsx\<close>, lines
  38-100 and the handlers wired in lines 115-150).

  The state is the value of the prop \<open>tickets\<close> and of the three \<open>useState\<close>
  cells. React compares the dependencies of an effect by identity, and
  \<open>handleFilterChange\<close> always stores a freshly built object, so the state also
  carries the identity of the object in \<open>filters\<close> and of the array in
  \<open>tickets\<close> (natural numbers, the next unused one in \<open>next_id\<close>), the
  identities the effect last ran with (\<open>effect_deps\<close>, \<open>None\<close> before the first
  run), and a counter of the runs of the effect, which is not program state but
  lets a theorem say when the list is recomputed.

  An event runs its handler, React renders again, and \<open>run_effects\<close> runs the
  effect if a dependency has changed: \<open>dispatch\<close>. The relation \<open>step\<close> splits
  this in two, which exposes the render between the handler and the effect,
  where the flags are new and the list is still the old one. \<open>flush\<close> is the
  loop React runs after a render, effects until none is pending; for this
  component it ends after at most one run. The second run of every effect that
  React adds at mount in its development mode is not modelled; it recomputes
  the same list. The theory shows the invariant of the component, what every
  sequence of events leads to, which events can be exchanged, and that the
  component implements the view model of the specification.
\<close>

record component =
  tickets :: "ticket list"
  filteredTickets :: "ticket list"
  filters :: filters
  selectedCurrency :: js_string
  tickets_id :: nat
  filters_id :: nat
  next_id :: nat
  effect_deps :: "(nat \<times> nat) option"
  effect_runs :: nat

datatype currency_button = Button_RUB | Button_USD | Button_EUR

fun button_code :: "currency_button \<Rightarrow> js_string" where
  "button_code Button_RUB = ''RUB''"
| "button_code Button_USD = ''USD''"
| "button_code Button_EUR = ''EUR''"

datatype event = Checkbox stops_key | Button currency_button

text \<open>The first render: the initial values of the three state cells.\<close>

definition initial_render :: "ticket list \<Rightarrow> component" where
  "initial_render ts =
     \<lparr>tickets = ts, filteredTickets = ts, filters = initial_filters,
      selectedCurrency = defaultCurrency,
      tickets_id = 0, filters_id = 1, next_id = 2,
      effect_deps = None, effect_runs = 0\<rparr>"

definition filterTickets :: "component \<Rightarrow> component" where
  "filterTickets c = c\<lparr>filteredTickets := filtered (tickets c) (filters c)\<rparr>"

definition deps :: "component \<Rightarrow> nat \<times> nat" where
  "deps c = (tickets_id c, filters_id c)"

definition run_effects :: "component \<Rightarrow> component" where
  "run_effects c =
     (if effect_deps c = Some (deps c) then c
      else (filterTickets c)\<lparr>effect_deps := Some (deps c), effect_runs := Suc (effect_runs c)\<rparr>)"

definition handleFilterChange :: "stops_key \<Rightarrow> component \<Rightarrow> component" where
  "handleFilterChange filterType c =
     c\<lparr>filters := newFilters filterType (filters c),
       filters_id := next_id c, next_id := Suc (next_id c)\<rparr>"

definition handleCurrencyChange :: "js_string \<Rightarrow> component \<Rightarrow> component" where
  "handleCurrencyChange newCurrency c = c\<lparr>selectedCurrency := newCurrency\<rparr>"

fun handle :: "event \<Rightarrow> component \<Rightarrow> component" where
  "handle (Checkbox k) c = handleFilterChange k c"
| "handle (Button b) c = handleCurrencyChange (button_code b) c"

definition mount :: "ticket list \<Rightarrow> component" where
  "mount ts = run_effects (initial_render ts)"

definition dispatch :: "event \<Rightarrow> component \<Rightarrow> component" where
  "dispatch e c = run_effects (handle e c)"

fun run :: "component \<Rightarrow> event list \<Rightarrow> component" where
  "run c [] = c"
| "run c (e # es) = run (dispatch e c) es"

text \<open>A parent that renders the component again with another array.\<close>

definition receive_props :: "ticket list \<Rightarrow> component \<Rightarrow> component" where
  "receive_props ts c =
     run_effects (c\<lparr>tickets := ts, tickets_id := next_id c, next_id := Suc (next_id c)\<rparr>)"

inductive reachable :: "ticket list \<Rightarrow> component \<Rightarrow> bool" for ts where
  mounted: "reachable ts (mount ts)"
| dispatched: "reachable ts c \<Longrightarrow> reachable ts (dispatch e c)"

text \<open>
  The two halves of a dispatch. A handler runs only when no effect is pending:
  React flushes pending effects before it handles the next event.
\<close>

definition settled :: "component \<Rightarrow> bool" where
  "settled c \<longleftrightarrow> effect_deps c = Some (deps c)"

text \<open>
  After a render React runs the pending effects, renders again if they have set
  state, and repeats this until no effect is pending. The loop may not end: an
  effect that replaces one of its own dependencies is pending again after
  every run.
\<close>

definition flush :: "component \<Rightarrow> component option" where
  "flush c = while_option (\<lambda>c. \<not> settled c) run_effects c"

inductive step :: "component \<Rightarrow> component \<Rightarrow> bool" where
  handler: "settled c \<Longrightarrow> step c (handle e c)"
| effect: "\<not> settled c \<Longrightarrow> step c (run_effects c)"

text \<open>
  Every render React commits: the first one, before any effect has run, and one
  after each half step.
\<close>

inductive renders :: "ticket list \<Rightarrow> component \<Rightarrow> bool" for ts where
  first_render: "renders ts (initial_render ts)"
| next_render: "renders ts c \<Longrightarrow> step c c' \<Longrightarrow> renders ts c'"

text \<open>The invariants of the component.\<close>

definition in_sync :: "component \<Rightarrow> bool" where
  "in_sync c \<longleftrightarrow> filteredTickets c = filtered (tickets c) (filters c)"

definition fresh_ids :: "component \<Rightarrow> bool" where
  "fresh_ids c \<longleftrightarrow> tickets_id c < next_id c \<and> filters_id c < next_id c"

definition component_inv :: "component \<Rightarrow> bool" where
  "component_inv c \<longleftrightarrow>
     fresh_ids c \<and> exclusive (filters c) \<and>
     selectedCurrency c \<in> set currency_codes \<and>
     (settled c \<longrightarrow> in_sync c)"

text \<open>What a user can see: the flags, the list and the currency.\<close>

definition observable :: "component \<Rightarrow> filters \<times> ticket list \<times> js_string" where
  "observable c = (filters c, filteredTickets c, selectedCurrency c)"

fun checkbox_keys :: "event list \<Rightarrow> stops_key list" where
  "checkbox_keys [] = []"
| "checkbox_keys (Checkbox k # es) = k # checkbox_keys es"
| "checkbox_keys (Button b # es) = checkbox_keys es"

text \<open>
  The view model the specification describes: a selection mode and a
  currency, a pure transition function on them, and the list a mode shows.
\<close>

record view_model =
  selection :: mode
  currency :: js_string

definition initial_view :: view_model where
  "initial_view = \<lparr>selection = Everything, currency = ''RUB''\<rparr>"

fun transition :: "event \<Rightarrow> view_model \<Rightarrow> view_model" where
  "transition (Checkbox k) v = v\<lparr>selection := toggle k (selection v)\<rparr>"
| "transition (Button b) v = v\<lparr>currency := button_code b\<rparr>"

fun shown :: "'a ticket_scheme list \<Rightarrow> mode \<Rightarrow> 'a ticket_scheme list" where
  "shown ts Everything = ts"
| "shown ts (Only S) = filter (\<lambda>t. \<exists>k \<in> S. stop_count (ticket.stops t) = key_stops k) ts"

definition view_of :: "component \<Rightarrow> view_model" where
  "view_of c = \<lparr>selection = mode_of (filters c), currency = selectedCurrency c\<rparr>"

text \<open>The currency on display after a sequence of events: the last button wins.\<close>

fun currency_after :: "js_string \<Rightarrow> event list \<Rightarrow> js_string" where
  "currency_after cur [] = cur"
| "currency_after cur (Checkbox k # es) = currency_after cur es"
| "currency_after cur (Button b # es) = currency_after (button_code b) es"

lemmas component_defs [model_defs] =
  initial_render_def filterTickets_def deps_def run_effects_def handleFilterChange_def
  handleCurrencyChange_def mount_def dispatch_def settled_def

declare handle.simps [simp del]

subsection \<open>Fields after each operation\<close>

lemma run_effects_fields [simp]:
  "tickets (run_effects c) = tickets c"
  "filters (run_effects c) = filters c"
  "selectedCurrency (run_effects c) = selectedCurrency c"
  "tickets_id (run_effects c) = tickets_id c"
  "filters_id (run_effects c) = filters_id c"
  "next_id (run_effects c) = next_id c"
  "effect_deps (run_effects c) = Some (deps c)"
  by (simp_all add: run_effects_def filterTickets_def deps_def)

lemma deps_run_effects [simp]: "deps (run_effects c) = deps c"
  by (simp add: deps_def)

lemma settled_run_effects [simp]: "settled (run_effects c)"
  by (simp add: settled_def)

lemma run_effects_settled [simp]: "settled c \<Longrightarrow> run_effects c = c"
  by (simp add: run_effects_def settled_def)

lemma run_effects_pending:
  "\<not> settled c \<Longrightarrow>
   filteredTickets (run_effects c) = filtered (tickets c) (filters c) \<and>
   effect_runs (run_effects c) = Suc (effect_runs c)"
  by (simp add: run_effects_def settled_def filterTickets_def)

lemma handle_fields [simp]:
  "tickets (handle e c) = tickets c"
  "filteredTickets (handle e c) = filteredTickets c"
  "tickets_id (handle e c) = tickets_id c"
  "effect_deps (handle e c) = effect_deps c"
  "effect_runs (handle e c) = effect_runs c"
  by (cases e; simp add: handle.simps handleFilterChange_def handleCurrencyChange_def)+

lemma handle_Checkbox_fields [simp]:
  "filters (handle (Checkbox k) c) = newFilters k (filters c)"
  "selectedCurrency (handle (Checkbox k) c) = selectedCurrency c"
  "filters_id (handle (Checkbox k) c) = next_id c"
  "next_id (handle (Checkbox k) c) = Suc (next_id c)"
  by (simp_all add: handle.simps handleFilterChange_def)

lemma handle_Button_fields [simp]:
  "filters (handle (Button b) c) = filters c"
  "selectedCurrency (handle (Button b) c) = button_code b"
  "filters_id (handle (Button b) c) = filters_id c"
  "next_id (handle (Button b) c) = next_id c"
  by (simp_all add: handle.simps handleCurrencyChange_def)

lemma button_code_in_codes [simp]: "button_code b \<in> set currency_codes"
  by (cases b) simp_all

lemma button_code_cases [simp]:
  "button_code b = ''RUB'' \<or> button_code b = ''USD'' \<or> button_code b = ''EUR''"
  by (cases b) simp_all

lemma settled_Button [simp]: "settled (handle (Button b) c) \<longleftrightarrow> settled c"
  by (simp add: settled_def deps_def)

lemma not_settled_Checkbox [simp]: "fresh_ids c \<Longrightarrow> settled c \<Longrightarrow> \<not> settled (handle (Checkbox k) c)"
  by (auto simp: settled_def deps_def fresh_ids_def)

subsection \<open>The invariant\<close>

lemma inv_initial_render [inv_intros]: "component_inv (initial_render ts)"
  by (simp add: component_inv_def fresh_ids_def settled_def initial_render_def defaultCurrency_def)

lemma inv_run_effects [inv_intros]: "component_inv c \<Longrightarrow> component_inv (run_effects c)"
  by (cases "settled c")
     (simp_all add: component_inv_def fresh_ids_def in_sync_def run_effects_pending)

lemma inv_handle [inv_intros]: "component_inv c \<Longrightarrow> settled c \<Longrightarrow> component_inv (handle e c)"
proof (cases e)
  case (Checkbox k)
  assume "component_inv c" and "settled c"
  then have "\<not> settled (handle (Checkbox k) c)" by (simp add: component_inv_def)
  with \<open>component_inv c\<close> Checkbox show ?thesis
    by (simp add: component_inv_def fresh_ids_def)
next
  case (Button b)
  assume "component_inv c" and "settled c"
  with Button show ?thesis
    by (simp add: component_inv_def fresh_ids_def in_sync_def)
qed

lemma inv_mount [inv_intros]: "component_inv (mount ts)"
  unfolding mount_def by (intro inv_intros)

lemma settled_mount [simp]: "settled (mount ts)"
  by (simp add: mount_def)

lemma settled_dispatch [simp]: "settled (dispatch e c)"
  by (simp add: dispatch_def)

lemma inv_dispatch [inv_intros]: "component_inv c \<Longrightarrow> settled c \<Longrightarrow> component_inv (dispatch e c)"
  unfolding dispatch_def by (intro inv_intros)

lemma reachable_settled: "reachable ts c \<Longrightarrow> settled c"
  by (induction rule: reachable.induct) simp_all

lemma reachable_inv: "reachable ts c \<Longrightarrow> component_inv c"
  by (induction rule: reachable.induct) (simp_all add: inv_intros reachable_settled)

lemma reachable_tickets: "reachable ts c \<Longrightarrow> tickets c = ts"
  by (induction rule: reachable.induct)
     (simp_all add: mount_def dispatch_def initial_render_def)

lemma reachable_run: "reachable ts c \<Longrightarrow> reachable ts (run c es)"
  by (induction es arbitrary: c) (simp_all add: reachable.dispatched)


lemma reachable_in_sync: "reachable ts c \<Longrightarrow> filteredTickets c = filtered ts (filters c)"
  using reachable_inv [of ts c] reachable_settled [of ts c] reachable_tickets [of ts c]
  by (simp add: component_inv_def in_sync_def)

subsection \<open>Running the effects to the end\<close>

lemma flush_settled: "settled c \<Longrightarrow> flush c = Some c"
  by (simp add: flush_def while_option_unfold)

lemma flush_run_effects: "flush c = Some (run_effects c)"
proof (cases "settled c")
  case True
  then show ?thesis by (simp add: flush_settled)
next
  case False
  then have "flush c = flush (run_effects c)"
    unfolding flush_def by (subst while_option_unfold) simp
  then show ?thesis by (simp add: flush_settled)
qed

subsection \<open>Dispatching\<close>

lemma dispatch_Button:
  "settled c \<Longrightarrow> dispatch (Button b) c = c\<lparr>selectedCurrency := button_code b\<rparr>"
proof -
  assume "settled c"
  then have "dispatch (Button b) c = handle (Button b) c" by (simp add: dispatch_def)
  then show ?thesis by (simp add: handle.simps handleCurrencyChange_def)
qed

lemma dispatch_Checkbox:
  assumes "fresh_ids c" and "settled c"
  shows "filteredTickets (dispatch (Checkbox k) c) = filtered (tickets c) (newFilters k (filters c))"
    and "effect_runs (dispatch (Checkbox k) c) = Suc (effect_runs c)"
    and "filters (dispatch (Checkbox k) c) = newFilters k (filters c)"
    and "selectedCurrency (dispatch (Checkbox k) c) = selectedCurrency c"
  using assms run_effects_pending [of "handle (Checkbox k) c"]
  by (simp_all add: dispatch_def)

lemma dispatch_fields [simp]:
  "tickets (dispatch e c) = tickets c"
  "selectedCurrency (dispatch (Button b) c) = button_code b"
  "selectedCurrency (dispatch (Checkbox k) c) = selectedCurrency c"
  "filters (dispatch (Button b) c) = filters c"
  "filters (dispatch (Checkbox k) c) = newFilters k (filters c)"
  by (simp_all add: dispatch_def)

lemma dispatch_Button_kept [simp]:
  "settled c \<Longrightarrow> filteredTickets (dispatch (Button b) c) = filteredTickets c"
  "settled c \<Longrightarrow> effect_runs (dispatch (Button b) c) = effect_runs c"
  by (simp_all add: dispatch_Button)

lemma fresh_ids_mount [simp]: "fresh_ids (mount ts)"
  using inv_mount [of ts] by (simp add: component_inv_def)

lemma fresh_ids_dispatch [simp]: "fresh_ids c \<Longrightarrow> fresh_ids (dispatch e c)"
  by (cases e) (simp_all add: dispatch_def fresh_ids_def)

lemma filters_run: "filters (run c es) = clicks (filters c) (checkbox_keys es)"
  by (induction es arbitrary: c rule: checkbox_keys.induct) simp_all

lemma selectedCurrency_run:
  "selectedCurrency (run c es) = currency_after (selectedCurrency c) es"
  by (induction es arbitrary: c rule: checkbox_keys.induct) simp_all

lemma currency_after_code:
  "cur \<in> set currency_codes \<Longrightarrow> currency_after cur es \<in> set currency_codes"
  by (induction cur es rule: currency_after.induct) simp_all

lemma run_append: "run c (es @ es') = run (run c es) es'"
  by (induction es arbitrary: c) simp_all

lemma run_snoc: "run c (es @ [e]) = dispatch e (run c es)"
  by (simp add: run_append)

lemma checkbox_keys_map [simp]: "checkbox_keys (map Checkbox ks) = ks"
  by (induction ks) simp_all

lemma checkbox_keys_append [simp]:
  "checkbox_keys (es @ es') = checkbox_keys es @ checkbox_keys es'"
  by (induction es rule: checkbox_keys.induct) simp_all

lemma mount_fields [simp]:
  "tickets (mount ts) = ts"
  "filteredTickets (mount ts) = ts"
  "filters (mount ts) = initial_filters"
  "selectedCurrency (mount ts) = ''RUB''"
  "effect_runs (mount ts) = Suc 0"
  by (simp_all add: mount_def run_effects_def filterTickets_def initial_render_def
      defaultCurrency_def deps_def filtered_all_flag)

lemma reachable_iff_run: "reachable ts c \<longleftrightarrow> (\<exists>es. c = run (mount ts) es)"
proof
  assume "reachable ts c"
  then show "\<exists>es. c = run (mount ts) es"
  proof induction
    case mounted
    have "mount ts = run (mount ts) []" by simp
    then show ?case ..
  next
    case (dispatched c e)
    from dispatched.IH obtain es where "c = run (mount ts) es" ..
    then have "dispatch e c = run (mount ts) (es @ [e])" by (simp add: run_snoc)
    then show ?case ..
  qed
next
  assume "\<exists>es. c = run (mount ts) es"
  then show "reachable ts c" by (auto intro: reachable_run reachable.mounted)
qed

lemma fresh_ids_reachable: "reachable ts c \<Longrightarrow> fresh_ids c"
  using reachable_inv [of ts c] by (simp add: component_inv_def)

lemmas reachable_facts =
  reachable_settled reachable_inv reachable_tickets fresh_ids_reachable

subsection \<open>The order of events\<close>

text \<open>
  A handled click on a checkbox replaces six fields of the state. A currency
  button touches none of them, so it can be moved across any number of clicks
  on checkboxes; two clicks on specific checkboxes can be exchanged, because
  each flips its own flag.
\<close>

lemma dispatch_Checkbox_state:
  assumes "fresh_ids c" and "settled c"
  shows "dispatch (Checkbox k) c =
           c\<lparr>filteredTickets := filtered (tickets c) (newFilters k (filters c)),
             filters := newFilters k (filters c),
             filters_id := next_id c, next_id := Suc (next_id c),
             effect_deps := Some (tickets_id c, next_id c),
             effect_runs := Suc (effect_runs c)\<rparr>"
  using assms
  by (simp add: dispatch_def run_effects_def handle.simps handleFilterChange_def
      filterTickets_def deps_def settled_def fresh_ids_def)

lemma dispatch_Button_Checkbox:
  assumes "fresh_ids c" and "settled c"
  shows "dispatch (Checkbox k) (dispatch (Button b) c) = dispatch (Button b) (dispatch (Checkbox k) c)"
proof -
  from assms have "fresh_ids (dispatch (Button b) c)" "settled (dispatch (Button b) c)"
    and "settled (dispatch (Checkbox k) c)" by simp_all
  then show ?thesis
    using assms by (simp add: dispatch_Checkbox_state dispatch_Button)
qed

lemma dispatch_Checkbox_Checkbox:
  assumes "fresh_ids c" and "settled c" and "k \<noteq> K_all" and "k' \<noteq> K_all"
  shows "dispatch (Checkbox k') (dispatch (Checkbox k) c)
           = dispatch (Checkbox k) (dispatch (Checkbox k') c)"
proof -
  from assms have "fresh_ids (dispatch (Checkbox k) c)" "settled (dispatch (Checkbox k) c)"
    "fresh_ids (dispatch (Checkbox k') c)" "settled (dispatch (Checkbox k') c)" by simp_all
  then show ?thesis
    using assms by (simp add: dispatch_Checkbox_state newFilters_commute [of k k'])
qed

lemma run_Button_first:
  "reachable ts c \<Longrightarrow>
   run c (Button b # map Checkbox ks) = run c (map Checkbox ks @ [Button b])"
proof (induction ks arbitrary: c)
  case Nil
  show ?case by simp
next
  case (Cons k ks)
  from Cons.prems have "fresh_ids c" "settled c" by (simp_all add: reachable_facts)
  then have "run c (Button b # map Checkbox (k # ks))
               = run (dispatch (Checkbox k) c) (Button b # map Checkbox ks)"
    by (simp add: dispatch_Button_Checkbox)
  also have "\<dots> = run (dispatch (Checkbox k) c) (map Checkbox ks @ [Button b])"
    using Cons.prems by (intro Cons.IH reachable.dispatched)
  finally show ?case by simp
qed

subsection \<open>Committed renders\<close>

lemma renders_mount: "renders ts (mount ts)"
proof -
  have "\<not> settled (initial_render ts)" by (simp add: settled_def initial_render_def)
  then have "step (initial_render ts) (mount ts)"
    unfolding mount_def by (rule step.effect)
  with renders.first_render show ?thesis by (rule renders.next_render)
qed

lemma renders_dispatch:
  assumes "renders ts c" and "settled c"
  shows "renders ts (dispatch e c)"
proof (cases "settled (handle e c)")
  case True
  with assms show ?thesis by (auto simp: dispatch_def intro: renders.next_render step.handler)
next
  case False
  from assms have "renders ts (handle e c)" by (auto intro: renders.next_render step.handler)
  moreover from False have "step (handle e c) (dispatch e c)"
    unfolding dispatch_def by (rule step.effect)
  ultimately show ?thesis by (rule renders.next_render)
qed

lemma renders_reachable_aux: "renders ts c \<Longrightarrow> reachable ts (run_effects c)"
proof (induction rule: renders.induct)
  case first_render
  show ?case using reachable.mounted [of ts] by (simp add: mount_def)
next
  case (next_render c c')
  from next_render.hyps(2) show ?case
  proof cases
    case (handler e)
    with next_render.IH have "reachable ts c" by simp
    then have "reachable ts (dispatch e c)" by (rule reachable.dispatched)
    with handler show ?thesis by (simp add: dispatch_def)
  next
    case effect
    with next_render.IH show ?thesis by simp
  qed
qed

lemma renders_reachable: "renders ts c \<Longrightarrow> settled c \<Longrightarrow> reachable ts c"
  using renders_reachable_aux [of ts c] by simp

lemmas component_eval =
  component_defs handle.simps selection_defs filtered_filter matches_def strict_eq_lits

subsection \<open>Properties of the component\<close>

text \<open>
  C2 (invariant): in every state the component reaches by mounting and handling
  events, no effect is pending and the list on display is the collection it was
  given, filtered by the flags on display.
\<close>

theorem displayed_list_is_filter:
  assumes "reachable ts c"
  shows "settled c \<and> tickets c = ts \<and> filteredTickets c = filtered ts (filters c)"
  using assms reachable_facts [OF assms] by (simp add: component_inv_def in_sync_def)

theorem displayed_list_is_filter_witness:
  "reachable [flight ''SU'' 0 15300, flight ''S7'' 1 13100]
     (dispatch (Checkbox K_oneStop) (mount [flight ''SU'' 0 15300, flight ''S7'' 1 13100])) \<and>
   filteredTickets
     (dispatch (Checkbox K_oneStop) (mount [flight ''SU'' 0 15300, flight ''S7'' 1 13100]))
     = [flight ''S7'' 1 13100]"
proof -
  let ?ts = "[flight ''SU'' 0 15300, flight ''S7'' 1 13100]"
  have r: "reachable ?ts (dispatch (Checkbox K_oneStop) (mount ?ts))"
    by (intro reachable.intros)
  have "filteredTickets (dispatch (Checkbox K_oneStop) (mount ?ts))
          = filtered ?ts (filters (dispatch (Checkbox K_oneStop) (mount ?ts)))"
    using displayed_list_is_filter [OF r] by simp
  also have "\<dots> = [flight ''S7'' 1 13100]"
    by (simp add: component_eval)
  finally show ?thesis using r by simp
qed

text \<open>
  C5 (refinement): the state after any sequence of events is determined by the
  sequence: the flags are the clicks on the checkboxes applied in order to the
  initial selection, the list is the collection filtered by these flags, and
  the effect has run once at mount and once more for each checkbox event, never
  for a currency button.
\<close>

theorem run_refines_clicks:
  "filters (run (mount ts) es) = clicks initial_filters (checkbox_keys es) \<and>
   filteredTickets (run (mount ts) es) = filtered ts (clicks initial_filters (checkbox_keys es)) \<and>
   effect_runs (run (mount ts) es) = Suc (length (checkbox_keys es))"
proof (induction es rule: rev_induct)
  case Nil
  show ?case by (simp add: filtered_all_flag)
next
  case (snoc e es)
  have r: "reachable ts (run (mount ts) es)" by (simp add: reachable_run reachable.mounted)
  note f = reachable_facts [OF r]
  show ?case
  proof (cases e)
    case (Checkbox k)
    with snoc f show ?thesis
      by (simp add: run_snoc dispatch_Checkbox clicks_append)
  next
    case (Button b)
    with snoc f show ?thesis
      by (simp add: run_snoc dispatch_Button)
  qed
qed

text \<open>
  A click on a currency button changes the selected currency and
  nothing else: the list is not recomputed, the effect does not run, and the
  flags keep their object identity.
\<close>

lemma currency_change_keeps_list:
  assumes "settled c"
  shows "dispatch (Button b) c = c\<lparr>selectedCurrency := button_code b\<rparr>"
  using assms by (rule dispatch_Button)

text \<open>
  A change of a checkbox runs the effect exactly once, and
  the list it leaves is the collection filtered by the new flags.
\<close>

lemma filter_change_recomputes:
  assumes "reachable ts c"
  shows "effect_runs (dispatch (Checkbox k) c) = Suc (effect_runs c) \<and>
         filteredTickets (dispatch (Checkbox k) c) = filtered ts (newFilters k (filters c))"
  using reachable_facts [OF assms] by (simp add: dispatch_Checkbox)

text \<open>
  The currency of a reachable state is one of the three codes of
  the rate table, so a price on display is the product with the rate of that
  code, printed with two fraction digits; the fallback and the inherited
  members of the table are out of reach of the buttons.
\<close>

lemma reachable_currency_has_rate:
  assumes "reachable ts c"
  shows "selectedCurrency c \<in> {''RUB'', ''USD'', ''EUR''} \<and>
         (\<exists>r. map_of exchangeRates (selectedCurrency c) = Some r \<and>
              convertCurrency p (selectedCurrency c) = toFixed 2 (js_times p r))"
proof -
  from reachable_inv [OF assms] have m: "selectedCurrency c \<in> set currency_codes"
    by (simp add: component_inv_def)
  then obtain r where r: "map_of exchangeRates (selectedCurrency c) = Some r"
    by (auto simp: map_of_exchangeRates)
  with m have "convertCurrency p (selectedCurrency c) = toFixed 2 (js_times p r)"
    by (simp add: convertCurrency_rate_of own_not_inherited rate_of_def)
  with m r show ?thesis by simp
qed

text \<open>
  The states between events are exactly the committed renders
  in which no effect is pending. Handling an event in one go (\<open>dispatch\<close>) is
  sound and complete for the half steps of handler and effect.
\<close>

lemma reachable_iff_settled_render:
  "reachable ts c \<longleftrightarrow> renders ts c \<and> settled c"
proof
  assume "reachable ts c"
  then show "renders ts c \<and> settled c"
  proof induction
    case mounted
    show ?case using renders_mount by simp
  next
    case (dispatched c e)
    then show ?case using renders_dispatch by simp
  qed
next
  assume "renders ts c \<and> settled c"
  then show "reachable ts c" using renders_reachable by simp
qed

text \<open>
  C33 (invariant): every committed render satisfies the invariant of the
  component: the identities in use are below the next fresh one, the flags are
  exclusive, the currency is a code of the rate table, and the list is the
  filtered collection whenever no effect is pending.
\<close>

theorem renders_invariant:
  assumes "renders ts c"
  shows "component_inv c \<and> tickets c = ts"
  using assms
proof induction
  case first_render
  show ?case by (simp add: inv_intros) (simp add: initial_render_def)
next
  case (next_render c c')
  from next_render.hyps(2) next_render.IH show ?case
    by cases (simp_all add: inv_intros)
qed

theorem renders_invariant_witness:
  "renders [flight ''SU'' 0 15300] (handle (Checkbox K_oneStop) (mount [flight ''SU'' 0 15300])) \<and>
   component_inv (handle (Checkbox K_oneStop) (mount [flight ''SU'' 0 15300]))"
proof -
  have "renders [flight ''SU'' 0 15300] (handle (Checkbox K_oneStop) (mount [flight ''SU'' 0 15300]))"
    using renders_mount by (rule renders.next_render) (simp add: step.handler)
  with renders_invariant [OF this] show ?thesis by simp
qed

text \<open>
  C34 (safety): between the handler of a checkbox and the effect there is a
  committed render in which the flags are the new ones and the list is still
  the old one. With one direct flight and a click on \<open>oneStop\<close>, that render
  shows the flight under a selection that excludes it; the effect then empties
  the list.
\<close>

theorem stale_render_between_handler_and_effect:
  "renders [flight ''SU'' 0 15300] (handle (Checkbox K_oneStop) (mount [flight ''SU'' 0 15300])) \<and>
   filteredTickets (handle (Checkbox K_oneStop) (mount [flight ''SU'' 0 15300]))
     = [flight ''SU'' 0 15300] \<and>
   filtered [flight ''SU'' 0 15300]
     (filters (handle (Checkbox K_oneStop) (mount [flight ''SU'' 0 15300]))) = [] \<and>
   filteredTickets (run_effects (handle (Checkbox K_oneStop) (mount [flight ''SU'' 0 15300]))) = []"
proof -
  let ?c = "handle (Checkbox K_oneStop) (mount [flight ''SU'' 0 15300])"
  have "renders [flight ''SU'' 0 15300] ?c"
    using renders_mount by (rule renders.next_render) (simp add: step.handler)
  moreover have "filtered [flight ''SU'' 0 15300] (filters ?c) = []"
    by (simp add: component_eval)
  moreover have "\<not> settled ?c"
    using inv_mount [of "[flight ''SU'' 0 15300]"] by (simp add: component_inv_def)
  ultimately show ?thesis by (simp add: run_effects_pending)
qed

text \<open>
  C35 (functional): selecting the currency that is already selected changes
  nothing at all. Clicking \<open>all\<close> while it is set leaves the flags, the list and
  the currency as they are, yet it stores a new flags object, so the effect runs
  again and recomputes the same list.
\<close>

theorem reselecting_is_unobservable:
  assumes "reachable ts c"
  shows "(selectedCurrency c = button_code b \<longrightarrow> dispatch (Button b) c = c) \<and>
         (all (stops (filters c)) \<longrightarrow>
            observable (dispatch (Checkbox K_all) c) = observable c \<and>
            effect_runs (dispatch (Checkbox K_all) c) = Suc (effect_runs c))"
proof -
  note f = reachable_facts [OF assms]
  have "exclusive (filters c)" using f(2) by (simp add: component_inv_def)
  then have "all (stops (filters c)) \<Longrightarrow> filters c = initial_filters"
    by (rule exclusive_all_initial)
  moreover have "filteredTickets c = filtered ts (filters c)"
    using f by (simp add: component_inv_def in_sync_def)
  ultimately show ?thesis
    using f by (auto simp: dispatch_Button dispatch_Checkbox observable_def)
qed

theorem reselecting_is_unobservable_witness:
  "reachable [] (mount []) \<and> selectedCurrency (mount []) = button_code Button_RUB \<and>
   all (stops (filters (mount []))) \<and>
   dispatch (Button Button_RUB) (mount []) = mount [] \<and>
   observable (dispatch (Checkbox K_all) (mount [])) = observable (mount []) \<and>
   effect_runs (dispatch (Checkbox K_all) (mount [])) = 2"
  using reselecting_is_unobservable [of "[]" "mount []" Button_RUB]
  by (simp add: reachable.mounted)

text \<open>
  When the parent passes another array, the effect runs and
  the list becomes the new collection filtered by the current flags; flags and
  currency are kept, and the invariant holds again.
\<close>

lemma receive_props_recomputes:
  assumes "component_inv c" and "settled c"
  shows "filteredTickets (receive_props ts' c) = filtered ts' (filters c) \<and>
         effect_runs (receive_props ts' c) = Suc (effect_runs c) \<and>
         filters (receive_props ts' c) = filters c \<and>
         selectedCurrency (receive_props ts' c) = selectedCurrency c \<and>
         component_inv (receive_props ts' c) \<and> settled (receive_props ts' c)"
proof -
  let ?c = "c\<lparr>tickets := ts', tickets_id := next_id c, next_id := Suc (next_id c)\<rparr>"
  from assms have p: "\<not> settled ?c"
    by (auto simp: settled_def deps_def component_inv_def fresh_ids_def)
  from assms have "component_inv ?c"
    using p by (simp add: component_inv_def fresh_ids_def)
  then have "component_inv (run_effects ?c)" by (rule inv_run_effects)
  with run_effects_pending [OF p] show ?thesis
    by (simp add: receive_props_def)
qed

text \<open>
  C15 (termination): the loop of renders and effects ends, from every state,
  after at most one run of the effect: \<open>filterTickets\<close> sets no state that the
  effect depends on. Mounting is the first render run to the end, and
  dispatching an event is its handler run to the end.
\<close>

theorem flush_terminates:
  "flush c = Some (run_effects c) \<and> settled (run_effects c) \<and>
   effect_runs (run_effects c) \<le> Suc (effect_runs c) \<and>
   flush (initial_render ts) = Some (mount ts) \<and>
   flush (handle e c) = Some (dispatch e c)"
proof -
  have "effect_runs (run_effects c) \<le> Suc (effect_runs c)"
    by (cases "settled c") (simp_all add: run_effects_pending)
  then show ?thesis by (simp add: flush_run_effects mount_def dispatch_def)
qed

text \<open>
  C16 (liveness): from every state the component reaches, every selection that
  satisfies the invariant, together with every currency, is reached by at most
  six further events, and the list then shows the collection under that
  selection. In particular a user can always return to the full list.
\<close>

theorem every_selection_reachable:
  assumes "reachable ts c" and "exclusive fs"
  shows "\<exists>es. length es \<le> 6 \<and> reachable ts (run c es) \<and> filters (run c es) = fs \<and>
              selectedCurrency (run c es) = button_code b \<and>
              filteredTickets (run c es) = filtered ts fs"
proof -
  let ?es = "Checkbox K_all # map Checkbox (path_to fs) @ [Button b]"
  have keys: "checkbox_keys ?es = K_all # path_to fs" by simp
  have r: "reachable ts (run c ?es)" using assms(1) by (rule reachable_run)
  have f: "filters (run c ?es) = fs"
    using assms(2) by (simp only: filters_run keys) (simp add: clicks_path_to)
  have "run c ?es = dispatch (Button b) (run c (Checkbox K_all # map Checkbox (path_to fs)))"
    using run_snoc [of c "Checkbox K_all # map Checkbox (path_to fs)" "Button b"] by simp
  then have cur: "selectedCurrency (run c ?es) = button_code b" by simp
  have "length ?es \<le> 6" using length_path_to [of fs] by simp
  with r f cur reachable_in_sync [OF r] show ?thesis by (intro exI [of _ ?es]) simp
qed

theorem every_selection_reachable_witness:
  "reachable [flight ''SU'' 0 15300] (mount [flight ''SU'' 0 15300]) \<and>
   exclusive (newFilters K_oneStop initial_filters) \<and>
   (\<exists>es. length es \<le> 6 \<and>
      filters (run (mount [flight ''SU'' 0 15300]) es) = newFilters K_oneStop initial_filters \<and>
      selectedCurrency (run (mount [flight ''SU'' 0 15300]) es) = ''EUR'')"
proof -
  have r: "reachable [flight ''SU'' 0 15300] (mount [flight ''SU'' 0 15300])"
    by (rule reachable.mounted)
  have e: "exclusive (newFilters K_oneStop initial_filters)" by simp
  from every_selection_reachable [OF r e, of Button_EUR] r e show ?thesis by auto
qed

subsection \<open>The component implements the view model\<close>

lemma filtered_shown: "filtered ts fs = shown ts (mode_of fs)"
proof (cases "all (stops fs)")
  case True
  then show ?thesis by (simp add: mode_of_def filtered_all_flag)
next
  case False
  have "(\<exists>n \<in> admitted fs. stop_count x = Some n) \<longleftrightarrow>
        (\<exists>k \<in> chosen fs. stop_count x = key_stops k)" for x
  proof
    assume "\<exists>n \<in> admitted fs. stop_count x = Some n"
    then obtain n k where "get_flag k (stops fs)" "key_stops k = Some n" "stop_count x = Some n"
      by (auto simp: admitted_def)
    then show "\<exists>k \<in> chosen fs. stop_count x = key_stops k"
      by (intro bexI [of _ k]) (auto simp: chosen_def)
  next
    assume "\<exists>k \<in> chosen fs. stop_count x = key_stops k"
    then obtain k where k: "k \<noteq> K_all" "get_flag k (stops fs)" "stop_count x = key_stops k"
      by (auto simp: chosen_def)
    then obtain n where "key_stops k = Some n" by (cases k) simp_all
    with k show "\<exists>n \<in> admitted fs. stop_count x = Some n" by (auto simp: admitted_def)
  qed
  with False show ?thesis by (simp add: mode_of_def filtered_specific)
qed

text \<open>
  C12 (refinement): the component implements the view model of the
  specification. It starts in the initial view; in every state it reaches the
  list on display is the list the mode shows, and handling an event is the
  transition of the view model.
\<close>

theorem component_refines_view_model:
  assumes "reachable ts c"
  shows "view_of (mount ts) = initial_view \<and>
         filteredTickets c = shown ts (selection (view_of c)) \<and>
         view_of (dispatch e c) = transition e (view_of c)"
proof -
  from reachable_inv [OF assms] have ex: "exclusive (filters c)" by (simp add: component_inv_def)
  have "view_of (mount ts) = initial_view"
    by (simp add: view_of_def initial_view_def mode_of_def initial_filters_def)
  moreover have "filteredTickets c = shown ts (selection (view_of c))"
    using reachable_in_sync [OF assms] by (simp add: view_of_def filtered_shown)
  moreover have "view_of (dispatch e c) = transition e (view_of c)"
    using ex by (cases e) (simp_all add: view_of_def mode_of_newFilters)
  ultimately show ?thesis by simp
qed

theorem component_refines_view_model_witness:
  "reachable [flight ''SU'' 0 15300, flight ''S7'' 1 13100]
     (mount [flight ''SU'' 0 15300, flight ''S7'' 1 13100]) \<and>
   view_of (dispatch (Checkbox K_oneStop) (mount [flight ''SU'' 0 15300, flight ''S7'' 1 13100]))
     = \<lparr>selection = Only {K_oneStop}, currency = ''RUB''\<rparr>"
proof -
  let ?ts = "[flight ''SU'' 0 15300, flight ''S7'' 1 13100]"
  have r: "reachable ?ts (mount ?ts)" by (rule reachable.mounted)
  from component_refines_view_model [OF r, of "Checkbox K_oneStop"] r
  show ?thesis by (simp add: initial_view_def)
qed

text \<open>
  C17 (equivalence): which events can be exchanged. From a reachable state,
  pressing a currency button before a sequence of clicks on checkboxes and
  pressing it after them lead to the same state, identities and run counter
  included; and two clicks on specific checkboxes lead to the same state in
  either order. A click on \<open>all\<close> and a click on a specific checkbox lead to
  different flags in the two orders, and two different currency buttons to
  different currencies.
\<close>

theorem events_commute:
  assumes "reachable ts c"
  shows "run c (Button b # map Checkbox ks) = run c (map Checkbox ks @ [Button b]) \<and>
         (k \<noteq> K_all \<and> k' \<noteq> K_all \<longrightarrow>
            run c [Checkbox k, Checkbox k'] = run c [Checkbox k', Checkbox k]) \<and>
         (k \<noteq> K_all \<longrightarrow>
            filters (run c [Checkbox K_all, Checkbox k])
              \<noteq> filters (run c [Checkbox k, Checkbox K_all])) \<and>
         (b \<noteq> b' \<longrightarrow>
            selectedCurrency (run c [Button b, Button b'])
              \<noteq> selectedCurrency (run c [Button b', Button b]))"
proof -
  from assms have "fresh_ids c" "settled c" by (simp_all add: reachable_facts)
  then have "run c [Checkbox k, Checkbox k'] = run c [Checkbox k', Checkbox k]"
    if "k \<noteq> K_all" "k' \<noteq> K_all"
    using that by (simp add: dispatch_Checkbox_Checkbox)
  moreover have "filters (run c [Checkbox K_all, Checkbox k])
                   \<noteq> filters (run c [Checkbox k, Checkbox K_all])" if "k \<noteq> K_all"
  proof
    assume "filters (run c [Checkbox K_all, Checkbox k]) = filters (run c [Checkbox k, Checkbox K_all])"
    then have "all (stops (newFilters k initial_filters)) = all (stops initial_filters)" by simp
    with that show False by simp
  qed
  moreover have "selectedCurrency (run c [Button b, Button b'])
                   \<noteq> selectedCurrency (run c [Button b', Button b])" if "b \<noteq> b'"
    using that by (cases b; cases b') simp_all
  ultimately show ?thesis using run_Button_first [OF assms] by blast
qed

theorem events_commute_witness:
  "run (mount [flight ''SU'' 0 15300]) [Button Button_EUR, Checkbox K_oneStop]
     = run (mount [flight ''SU'' 0 15300]) [Checkbox K_oneStop, Button Button_EUR] \<and>
   filters (run (mount [flight ''SU'' 0 15300]) [Checkbox K_all, Checkbox K_oneStop])
     \<noteq> filters (run (mount [flight ''SU'' 0 15300]) [Checkbox K_oneStop, Checkbox K_all])"
proof -
  have "reachable [flight ''SU'' 0 15300] (mount [flight ''SU'' 0 15300])" by (rule reachable.mounted)
  from events_commute [OF this, of Button_EUR "[K_oneStop]" K_oneStop K_oneStop Button_EUR]
  show ?thesis by simp
qed

end
