(* ===== verification/Ticket_View.thy ===== *)
theory Ticket_View
  imports Ticket_List
begin

text \<open>
  What the component renders (\<open>TicketList.tsx\<close>, lines 102-208) and the element
  \<open>App\<close> puts around it (\<open>App.tsx\<close>, lines 5-13), as a tree of elements
  with their properties and children. Event handlers are properties whose
  value is the event of the state machine they raise; the text is kept as the
  bytes of its UTF-8 encoding. Queries on the tree (\<open>handlers\<close>, \<open>named\<close>,
  \<open>by_class\<close>, \<open>text_content\<close>, \<open>checked_labels\<close>) state what a user finds on the
  page, and \<open>use_nth\<close> is what a user does to it: the events of the element
  used are handled. \<open>page\<close> is the tree of \<open>App\<close> after a sequence of events,
  for the data \<open>App\<close> imports.
\<close>

datatype image_src = Asset js_string | Inherited | Missing

datatype prop_value =
  Str js_string | Bool bool | Handler event | Image image_src | Index nat

datatype node = Text js_string | Element js_string "(js_string \<times> prop_value) list" "node list"

subsection \<open>The fixed texts\<close>

text \<open>The heading of the currency buttons, the Russian word for currency (line 113).\<close>

definition text_currency :: js_string where
  "text_currency =
     [CHR 0xD0, CHR 0x92, CHR 0xD0, CHR 0xB0, CHR 0xD0, CHR 0xBB, CHR 0xD1, CHR 0x8E,
      CHR 0xD1, CHR 0x82, CHR 0xD0, CHR 0xB0]"

text \<open>The heading of the checkboxes, \<open>number of stops\<close> (line 120).\<close>

definition text_stops_heading :: js_string where
  "text_stops_heading =
     [CHR 0xD0, CHR 0x9A, CHR 0xD0, CHR 0xBE, CHR 0xD0, CHR 0xBB, CHR 0xD0, CHR 0xB8,
      CHR 0xD1, CHR 0x87, CHR 0xD0, CHR 0xB5, CHR 0xD1, CHR 0x81, CHR 0xD1, CHR 0x82,
      CHR 0xD0, CHR 0xB2, CHR 0xD0, CHR 0xBE, CHR 0x20, CHR 0xD0, CHR 0xBF, CHR 0xD0,
      CHR 0xB5, CHR 0xD1, CHR 0x80, CHR 0xD0, CHR 0xB5, CHR 0xD1, CHR 0x81, CHR 0xD0,
      CHR 0xB0, CHR 0xD0, CHR 0xB4, CHR 0xD0, CHR 0xBE, CHR 0xD0, CHR 0xBA]"

text \<open>The label of the checkbox \<open>all\<close>, \<open>everything\<close> (line 125).\<close>

definition text_all :: js_string where
  "text_all =
     [CHR 0xD0, CHR 0x92, CHR 0xD1, CHR 0x81, CHR 0xD0, CHR 0xB5]"

text \<open>The label \<open>without stops\<close> (lines 131 and 186).\<close>

definition text_nonStop :: js_string where
  "text_nonStop =
     [CHR 0xD0, CHR 0x91, CHR 0xD0, CHR 0xB5, CHR 0xD0, CHR 0xB7, CHR 0x20, CHR 0xD0,
      CHR 0xBF, CHR 0xD0, CHR 0xB5, CHR 0xD1, CHR 0x80, CHR 0xD0, CHR 0xB5, CHR 0xD1,
      CHR 0x81, CHR 0xD0, CHR 0xB0, CHR 0xD0, CHR 0xB4, CHR 0xD0, CHR 0xBE, CHR 0xD0,
      CHR 0xBA]"

text \<open>The word \<open>stop\<close> in the nominative singular (line 188).\<close>

definition word_singular :: js_string where
  "word_singular =
     [CHR 0xD0, CHR 0xBF, CHR 0xD0, CHR 0xB5, CHR 0xD1, CHR 0x80, CHR 0xD0, CHR 0xB5,
      CHR 0xD1, CHR 0x81, CHR 0xD0, CHR 0xB0, CHR 0xD0, CHR 0xB4, CHR 0xD0, CHR 0xBA,
      CHR 0xD0, CHR 0xB0]"

text \<open>The word \<open>stop\<close> in the form used after 2, 3 and 4 (line 188).\<close>

definition word_plural :: js_string where
  "word_plural =
     [CHR 0xD0, CHR 0xBF, CHR 0xD0, CHR 0xB5, CHR 0xD1, CHR 0x80, CHR 0xD0, CHR 0xB5,
      CHR 0xD1, CHR 0x81, CHR 0xD0, CHR 0xB0, CHR 0xD0, CHR 0xB4, CHR 0xD0, CHR 0xBA,
      CHR 0xD0, CHR 0xB8]"

text \<open>The word \<open>buy\<close> and the space after it (line 170).\<close>

definition text_buy :: js_string where
  "text_buy =
     [CHR 0xD0, CHR 0x9A, CHR 0xD1, CHR 0x83, CHR 0xD0, CHR 0xBF, CHR 0xD0, CHR 0xB8,
      CHR 0xD1, CHR 0x82, CHR 0xD1, CHR 0x8C, CHR 0x20]"

fun checkbox_label :: "stops_key \<Rightarrow> js_string" where
  "checkbox_label K_all = text_all"
| "checkbox_label K_nonStop = text_nonStop"
| "checkbox_label K_oneStop = ''1 '' @ word_singular"
| "checkbox_label K_twoStops = ''2 '' @ word_plural"
| "checkbox_label K_threeStops = ''3 '' @ word_plural"

subsection \<open>The parts of the render\<close>

text \<open>
  The images are the default exports of five modules; an image is named here
  by the path of its module. An index into \<open>carrierImages\<close> by a carrier code
  finds an own member, a member every object inherits, or nothing.
\<close>

definition carrierImages :: "(js_string \<times> js_string) list" where
  "carrierImages =
     [(''TK'', ''./svg/TK.svg''), (''S7'', ''./svg/S7.svg''), (''SU'', ''./svg/SU.svg''),
      (''BA'', ''./svg/BA.svg''), (''Arrow'', ''./svg/Arrow.svg'')]"

definition carrier_image :: "js_string \<Rightarrow> image_src" where
  "carrier_image c =
     (case map_of carrierImages c of
        Some a \<Rightarrow> Asset a
      | None \<Rightarrow> if c \<in> set object_prototype_keys then Inherited else Missing)"

definition stops_text :: "number \<Rightarrow> js_string" where
  "stops_text s =
     (if strict_eq s (lit 0) then text_nonStop
      else to_string s @ '' '' @ (if strict_eq s (lit 1) then word_singular else word_plural))"

definition currency_control :: "currency_button \<Rightarrow> node" where
  "currency_control b =
     Element ''Button'' [(''onClick'', Handler (Button b))] [Text (button_code b)]"

definition stops_checkbox :: "filters \<Rightarrow> stops_key \<Rightarrow> node" where
  "stops_checkbox fs k =
     Element ''Checkbox''
       [(''checked'', Bool (get_flag k (stops fs))), (''onChange'', Handler (Checkbox k))]
       [Text (checkbox_label k)]"

definition endpoint :: "js_string \<Rightarrow> js_string \<Rightarrow> js_string \<Rightarrow> js_string \<Rightarrow> node" where
  "endpoint time code name date =
     Element ''div'' []
       [Element ''p'' [(''className'', Str ''tickets__times'')] [Text time],
        Element ''p'' [] [Text code, Text '','', Text name],
        Element ''p'' [] [Text date]]"

definition buy_button :: "js_string \<Rightarrow> 'a ticket_scheme \<Rightarrow> node" where
  "buy_button cur t =
     Element ''Button'' [(''type'', Str ''primary''), (''className'', Str ''tickets__buy'')]
       [Text text_buy, Text (convertCurrency (price t) cur), Text '' '', Text cur]"

definition ticket_card :: "js_string \<Rightarrow> nat \<Rightarrow> 'a ticket_scheme \<Rightarrow> node" where
  "ticket_card cur index t =
     Element ''div'' [(''key'', Index index), (''className'', Str ''tickets__list'')]
       [Element ''Card'' []
          [Element ''div'' [(''className'', Str ''tickets__info'')]
             [Element ''div'' [(''className'', Str ''tickets__price'')]
                [Element ''img''
                   [(''src'', Image (carrier_image (carrier t))), (''alt'', Str (carrier t))] [],
                 buy_button cur t],
              Element ''div'' [(''className'', Str ''tickets__time'')]
                [endpoint (departure_time t) (origin t) (origin_name t) (departure_date t),
                 Element ''div'' []
                   [Element ''div'' []
                      [Element ''p'' [] [Text (stops_text (ticket.stops t))],
                       Element ''img''
                         [(''src'', Image (carrier_image ''Arrow'')), (''alt'', Str ''Arrow'')]
                         []]],
                 endpoint (arrival_time t) (destination t) (destination_name t)
                   (arrival_date t)]]]]"

definition ticket_cards :: "js_string \<Rightarrow> 'a ticket_scheme list \<Rightarrow> node list" where
  "ticket_cards cur ts = array_map (\<lambda>ticket index. ticket_card cur index ticket) ts"

definition render :: "component \<Rightarrow> node" where
  "render c =
     Element ''div'' [(''className'', Str ''tickets'')]
       [Element ''div'' []
          [Element ''p'' [] [Text text_currency],
           Element ''Space'' [(''wrap'', Bool True)]
             [currency_control Button_RUB, currency_control Button_USD,
              currency_control Button_EUR],
           Element ''div'' [(''className'', Str ''tickets__filters'')]
             [Text text_stops_heading,
              stops_checkbox (filters c) K_all, stops_checkbox (filters c) K_nonStop,
              stops_checkbox (filters c) K_oneStop, stops_checkbox (filters c) K_twoStops,
              stops_checkbox (filters c) K_threeStops]],
        Element ''div'' [(''className'', Str ''tickets__group'')]
          (ticket_cards (selectedCurrency c) (filteredTickets c))]"

definition App :: "component \<Rightarrow> node" where
  "App c = Element ''div'' [(''className'', Str ''App'')] [Element ''main'' [] [render c]]"

text \<open>
  The module \<open>tickets.json\<close> as \<open>App.tsx\<close> reads it: an object whose member
  \<open>tickets\<close> is the array of the tickets.
\<close>

record tickets_json =
  tickets :: "ticket list"

text \<open>
  The page after a sequence of events: \<open>App\<close> passes the member \<open>tickets\<close> of the
  imported module to the component, which is mounted with it and then handles
  the events one by one.
\<close>

definition page :: "tickets_json \<Rightarrow> event list \<Rightarrow> node" where
  "page ticketsData es = App (run (mount (tickets_json.tickets ticketsData)) es)"

subsection \<open>Queries on the tree\<close>

fun handlers :: "node \<Rightarrow> event list" where
  "handlers (Text s) = []"
| "handlers (Element name props children) =
     concat (map (\<lambda>(p, v). case v of Handler e \<Rightarrow> [e] | _ \<Rightarrow> []) props) @
     concat (map handlers children)"

fun text_content :: "node \<Rightarrow> js_string" where
  "text_content (Text s) = s"
| "text_content (Element name props children) = concat (map text_content children)"

fun named :: "js_string \<Rightarrow> node \<Rightarrow> node list" where
  "named n (Text s) = []"
| "named n (Element name props children) =
     (if name = n then [Element name props children] else []) @
     concat (map (named n) children)"

fun by_class :: "js_string \<Rightarrow> node \<Rightarrow> node list" where
  "by_class cls (Text s) = []"
| "by_class cls (Element name props children) =
     (if map_of props ''className'' = Some (Str cls) then [Element name props children] else []) @
     concat (map (by_class cls) children)"

fun prop_of :: "js_string \<Rightarrow> node \<Rightarrow> prop_value option" where
  "prop_of p (Text s) = None"
| "prop_of p (Element name props children) = map_of props p"

fun children_of :: "node \<Rightarrow> node list" where
  "children_of (Text s) = []"
| "children_of (Element name props children) = children"

text \<open>The labels of the checkboxes that are checked, in the order of the page.\<close>

definition checked_labels :: "node \<Rightarrow> js_string list" where
  "checked_labels n =
     map text_content
       (filter (\<lambda>b. prop_of ''checked'' b = Some (Bool True)) (named ''Checkbox'' n))"

text \<open>
  What a user does: the \<open>i\<close>-th element of a kind on the rendered page is
  used, and the events of the handlers it carries are handled. Where the page
  has no such element, nothing happens.
\<close>

definition use_nth :: "js_string \<Rightarrow> nat \<Rightarrow> component \<Rightarrow> component" where
  "use_nth name i c =
     (let es = named name (render c)
      in if i < length es then run c (handlers (es ! i)) else c)"

text \<open>The events of the state machine, in the order the render offers them.\<close>

definition all_events :: "event list" where
  "all_events =
     map Button [Button_RUB, Button_USD, Button_EUR] @
     map Checkbox [K_all, K_nonStop, K_oneStop, K_twoStops, K_threeStops]"

lemmas text_defs =
  text_currency_def text_stops_heading_def text_all_def text_nonStop_def
  word_singular_def word_plural_def text_buy_def

lemmas view_defs [model_defs] =
  currency_control_def stops_checkbox_def endpoint_def buy_button_def ticket_card_def
  ticket_cards_def render_def App_def

subsection \<open>The cards\<close>

lemma ticket_cards_enumerate:
  "ticket_cards cur ts = map (\<lambda>(index, t). ticket_card cur index t) (enumerate 0 ts)"
  by (simp add: ticket_cards_def array_map_enumerate)

lemma length_ticket_cards [simp]: "length (ticket_cards cur ts) = length ts"
  by (simp add: ticket_cards_enumerate)

lemma ticket_cards_Nil [simp]: "ticket_cards cur [] = []"
  by (simp add: ticket_cards_enumerate)

lemma nth_ticket_cards:
  "i < length ts \<Longrightarrow> ticket_cards cur ts ! i = ticket_card cur i (ts ! i)"
  by (simp add: ticket_cards_enumerate nth_enumerate_eq)

lemma handlers_ticket_card [simp]: "handlers (ticket_card cur i t) = []"
  by (simp add: ticket_card_def endpoint_def buy_button_def)

lemma handlers_ticket_cards [simp]: "concat (map handlers (ticket_cards cur ts)) = []"
  by (simp add: ticket_cards_enumerate split_def)

lemma named_Button_ticket_card [simp]:
  "named ''Button'' (ticket_card cur i t) = [buy_button cur t]"
  by (simp add: ticket_card_def endpoint_def) (simp add: buy_button_def)

lemma named_Checkbox_ticket_card [simp]: "named ''Checkbox'' (ticket_card cur i t) = []"
  by (simp add: ticket_card_def endpoint_def buy_button_def)

lemma by_class_group_ticket_card [simp]: "by_class ''tickets__group'' (ticket_card cur i t) = []"
  by (simp add: ticket_card_def endpoint_def buy_button_def)

lemma by_class_buy_ticket_card [simp]:
  "by_class ''tickets__buy'' (ticket_card cur i t) = [buy_button cur t]"
  by (simp add: ticket_card_def endpoint_def) (simp add: buy_button_def)

lemma map_enumerate_snd: "map (\<lambda>(i, t). g t) (enumerate n ts) = map g ts"
  by (induction ts arbitrary: n) simp_all

lemma concat_map_ticket_cards:
  assumes "\<And>i t. f (ticket_card cur i t) = g t"
  shows "concat (map f (ticket_cards cur ts)) = concat (map g ts)"
proof -
  have "map f (ticket_cards cur ts) = map (\<lambda>(i, t). g t) (enumerate 0 ts)"
    by (simp add: ticket_cards_enumerate split_def assms)
  then show ?thesis by (simp only: map_enumerate_snd)
qed

lemma text_content_buy_button [simp]:
  "text_content (buy_button cur t) = text_buy @ convertCurrency (price t) cur @ '' '' @ cur"
  by (simp add: buy_button_def)

subsection \<open>The stop label\<close>

lemma stops_text_of_nat:
  assumes "n < 10 ^ 15"
  shows "stops_text (Num (of_nat n)) =
           (if n = 0 then text_nonStop
            else digits n @ '' '' @ (if n = 1 then word_singular else word_plural))"
proof -
  have "strict_eq (Num (of_nat n)) (lit 0) \<longleftrightarrow> n = 0"
    and "strict_eq (Num (of_nat n)) (lit 1) \<longleftrightarrow> n = 1"
    by (simp_all add: strict_eq_lits)
  with assms show ?thesis by (simp add: stops_text_def to_string_of_nat)
qed

lemma stops_text_lits:
  "stops_text (Num 0) = text_nonStop"
  "stops_text (Num 1) = ''1 '' @ word_singular"
  "stops_text (Num 2) = ''2 '' @ word_plural"
  "stops_text (Num 3) = ''3 '' @ word_plural"
  using stops_text_of_nat [of 0] stops_text_of_nat [of 1] stops_text_of_nat [of 2]
    stops_text_of_nat [of 3]
  by simp_all

subsection \<open>Queries on the render\<close>

lemma cards_no_checkbox [simp]:
  "concat (map (named ''Checkbox'') (ticket_cards cur ts)) = []"
  by (simp add: ticket_cards_enumerate split_def)

lemma cards_no_group [simp]:
  "concat (map (by_class ''tickets__group'') (ticket_cards cur ts)) = []"
  by (simp add: ticket_cards_enumerate split_def)

lemma cards_buy_buttons [simp]:
  "concat (map (by_class ''tickets__buy'') (ticket_cards cur ts)) = map (buy_button cur) ts"
proof -
  have "concat (map (by_class ''tickets__buy'') (ticket_cards cur ts))
          = concat (map (\<lambda>t. [buy_button cur t]) ts)"
    by (rule concat_map_ticket_cards) simp
  then show ?thesis by simp
qed

lemma handlers_render: "handlers (render c) = all_events"
  by (simp add: render_def currency_control_def stops_checkbox_def all_events_def)

lemma by_class_buy_render:
  "by_class ''tickets__buy'' (render c) = map (buy_button (selectedCurrency c)) (filteredTickets c)"
  by (simp add: render_def currency_control_def stops_checkbox_def)

subsection \<open>Labels\<close>

text \<open>
  The stop label tells the stop count: the three forms end in different bytes,
  and the digits before the word are those of one number only. So a label of a
  card equals the label of a checkbox exactly when the stop count of the card
  is the one the checkbox stands for.
\<close>

lemmas strict_eq_nums = strict_eq_lits [unfolded lit_small]

lemma last_text_all [simp]: "last text_all = CHR 0xB5"
  by (simp add: text_defs)

lemma last_stops_text:
  "last (stops_text s) =
     (if strict_eq s (lit 0) then CHR 0xBA else if strict_eq s (lit 1) then CHR 0xB0 else CHR 0xB8)"
  by (simp add: stops_text_def text_defs)

lemma stops_text_inj:
  assumes "wf_number s" and "n < 10 ^ 15" and eq: "stops_text s = stops_text (Num (of_nat n))"
  shows "s = Num (of_nat n)"
proof -
  from eq have "last (stops_text s) = last (stops_text (Num (of_nat n)))" by simp
  then consider "stop_count s = Some 0" "n = 0" | "stop_count s = Some 1" "n = 1"
    | "stop_count s \<noteq> Some 0" "stop_count s \<noteq> Some 1" "n \<noteq> 0" "n \<noteq> 1"
    using assms(2) by (auto simp: last_stops_text strict_eq_nums strict_eq_of_nat split: if_splits)
  then show ?thesis
  proof cases
    case 3
    with eq assms(2) have "to_string s = digits n"
      by (simp add: stops_text_def strict_eq_nums strict_eq_of_nat to_string_of_nat)
    with assms(1) show ?thesis using assms(2) by (rule to_string_whole_inj)
  qed (simp_all add: stop_count_Some)
qed

lemma stops_text_label:
  assumes "wf_number s"
  shows "stops_text s = checkbox_label k \<longleftrightarrow> k \<noteq> K_all \<and> stop_count s = key_stops k"
proof (cases k)
  case K_all
  have "last (stops_text s) \<noteq> last text_all" by (simp add: last_stops_text)
  then have "stops_text s \<noteq> text_all" by auto
  with K_all show ?thesis by simp
next
  case K_nonStop
  from assms have "stops_text s = stops_text (Num (of_nat 0)) \<longleftrightarrow> s = Num (of_nat 0)"
    using stops_text_inj [of s 0] by auto
  with K_nonStop show ?thesis by (simp add: stops_text_lits stop_count_Some)
next
  case K_oneStop
  from assms have "stops_text s = stops_text (Num (of_nat 1)) \<longleftrightarrow> s = Num (of_nat 1)"
    using stops_text_inj [of s 1] by auto
  with K_oneStop show ?thesis by (simp add: stops_text_lits stop_count_Some)
next
  case K_twoStops
  from assms have "stops_text s = stops_text (Num (of_nat 2)) \<longleftrightarrow> s = Num (of_nat 2)"
    using stops_text_inj [of s 2] by auto
  with K_twoStops show ?thesis by (simp add: stops_text_lits stop_count_Some)
next
  case K_threeStops
  from assms have "stops_text s = stops_text (Num (of_nat 3)) \<longleftrightarrow> s = Num (of_nat 3)"
    using stops_text_inj [of s 3] by auto
  with K_threeStops show ?thesis by (simp add: stops_text_lits stop_count_Some)
qed


subsection \<open>The controls of the render\<close>

lemma named_Checkbox_render:
  "named ''Checkbox'' (render c) =
     map (stops_checkbox (filters c)) [K_all, K_nonStop, K_oneStop, K_twoStops, K_threeStops]"
  by (simp add: render_def currency_control_def stops_checkbox_def)

lemma named_Button_render:
  "named ''Button'' (render c) =
     map currency_control [Button_RUB, Button_USD, Button_EUR] @
     map (buy_button (selectedCurrency c)) (filteredTickets c)"
proof -
  have "concat (map (named ''Button'') (ticket_cards cur ts)) = concat (map (\<lambda>t. [buy_button cur t]) ts)"
    for cur and ts :: "ticket list"
    by (rule concat_map_ticket_cards) simp
  then show ?thesis
    by (simp add: render_def stops_checkbox_def) (simp add: currency_control_def)
qed

lemma set_keys: "set [K_all, K_nonStop, K_oneStop, K_twoStops, K_threeStops] = UNIV"
  using all_key [of "\<lambda>k. k \<in> set [K_all, K_nonStop, K_oneStop, K_twoStops, K_threeStops]"]
  by auto

lemma set_checked_labels:
  "set (checked_labels (render c)) = checkbox_label ` {k. get_flag k (stops (filters c))}"
proof -
  have "checked_labels (render c) =
          map checkbox_label
            (filter (\<lambda>k. get_flag k (stops (filters c)))
               [K_all, K_nonStop, K_oneStop, K_twoStops, K_threeStops])"
    unfolding checked_labels_def named_Checkbox_render
    by (simp add: filter_map comp_def stops_checkbox_def)
  then show ?thesis by (simp only: set_map set_filter set_keys) simp
qed

lemma inj_checkbox_label: "inj checkbox_label"
proof (rule injI)
  fix k k' assume "checkbox_label k = checkbox_label k'"
  then show "k = k'" by (cases k; cases k') (simp_all add: text_defs)
qed

lemma matches_checked_labels:
  assumes "wf_number (ticket.stops t)"
  shows "matches (filters c) t \<longleftrightarrow>
           text_all \<in> set (checked_labels (render c)) \<or>
           stops_text (ticket.stops t) \<in> set (checked_labels (render c))"
proof -
  have "text_all \<in> checkbox_label ` A \<longleftrightarrow> K_all \<in> A" for A
    using inj_checkbox_label [THEN inj_image_mem_iff, of K_all A] by simp
  moreover have "stops_text (ticket.stops t) \<in> checkbox_label ` A
                   \<longleftrightarrow> (\<exists>k \<in> A. k \<noteq> K_all \<and> stop_count (ticket.stops t) = key_stops k)" for A
    by (auto simp: stops_text_label [OF assms] image_iff)
  ultimately show ?thesis
    unfolding set_checked_labels matches_iff by (auto simp: ex_key Bex_def)
qed

lemma by_class_list_cards [simp]:
  "concat (map (by_class ''tickets__list'') (ticket_cards cur ts)) = ticket_cards cur ts"
proof -
  have card: "by_class ''tickets__list'' (ticket_card cur i t) = [ticket_card cur i t]" for i t
    by (simp add: ticket_card_def endpoint_def buy_button_def)
  show ?thesis
    by (simp add: ticket_cards_enumerate split_def comp_def card concat_map_singleton)
qed

lemma by_class_list_render:
  "by_class ''tickets__list'' (render c) = ticket_cards (selectedCurrency c) (filteredTickets c)"
  by (simp add: render_def currency_control_def stops_checkbox_def)

subsection \<open>Using the controls\<close>

lemma nth_Checkbox:
  assumes "i < 5"
  obtains k where "named ''Checkbox'' (render c) ! i = stops_checkbox (filters c) k"
    and "k = K_all \<longleftrightarrow> i = 0"
proof -
  from assms consider "i = 0" | "i = 1" | "i = 2" | "i = 3" | "i = 4" by linarith
  then show ?thesis by cases (auto simp: named_Checkbox_render intro: that)
qed

lemma nth_Button:
  assumes "j < 3"
  obtains b where "named ''Button'' (render c) ! j = currency_control b"
proof -
  from assms consider "j = 0" | "j = 1" | "j = 2" by linarith
  then show ?thesis by cases (auto simp: named_Button_render intro: that)
qed

lemma use_nth_Checkbox:
  assumes "i < 5" and "named ''Checkbox'' (render c) ! i = stops_checkbox (filters c) k"
  shows "use_nth ''Checkbox'' i c = dispatch (Checkbox k) c"
    and "text_content (named ''Checkbox'' (render c) ! i) = checkbox_label k"
proof -
  from assms(1) have "i < length (named ''Checkbox'' (render c))"
    by (simp add: named_Checkbox_render)
  with assms(2) show "use_nth ''Checkbox'' i c = dispatch (Checkbox k) c"
    by (simp add: use_nth_def stops_checkbox_def)
  show "text_content (named ''Checkbox'' (render c) ! i) = checkbox_label k"
    by (simp only: assms(2)) (simp add: stops_checkbox_def)
qed

lemma use_nth_Button:
  assumes "j < 3" and "named ''Button'' (render c) ! j = currency_control b"
  shows "use_nth ''Button'' j c = dispatch (Button b) c"
    and "text_content (named ''Button'' (render c) ! j) = button_code b"
proof -
  from assms(1) have "j < length (named ''Button'' (render c))"
    by (simp add: named_Button_render)
  with assms(2) show "use_nth ''Button'' j c = dispatch (Button b) c"
    by (simp add: use_nth_def currency_control_def)
  show "text_content (named ''Button'' (render c) ! j) = button_code b"
    by (simp only: assms(2)) (simp add: currency_control_def)
qed

lemma use_nth_buy_button:
  assumes "3 \<le> j"
  shows "use_nth ''Button'' j c = c"
proof (cases "j < length (named ''Button'' (render c))")
  case True
  with assms have "j - 3 < length (filteredTickets c)" by (simp add: named_Button_render)
  moreover from assms have "named ''Button'' (render c) ! j
      = map (buy_button (selectedCurrency c)) (filteredTickets c) ! (j - 3)"
    by (simp add: named_Button_render nth_append numeral_3_eq_3)
  ultimately have "handlers (named ''Button'' (render c) ! j) = []"
    by (simp add: buy_button_def)
  then show ?thesis by (simp add: use_nth_def Let_def)
next
  case False
  then show ?thesis by (simp add: use_nth_def Let_def)
qed

lemma checked_after_all: "checked_labels (render (dispatch (Checkbox K_all) c)) = [text_all]"
  by (simp add: checked_labels_def named_Checkbox_render stops_checkbox_def selection_defs)

lemma checked_after_specific:
  fixes c :: component
  defines "B \<equiv> set (checked_labels (render c))"
  assumes "k \<noteq> K_all"
  shows "set (checked_labels (render (dispatch (Checkbox k) c))) =
           (if checkbox_label k \<in> B then B - {checkbox_label k, text_all}
            else insert (checkbox_label k) (B - {text_all}))"
proof -
  let ?F = "{k'. get_flag k' (stops (filters c))}"
  have "{k'. get_flag k' (stops (filters (dispatch (Checkbox k) c)))}
          = (if k \<in> ?F then ?F - {k, K_all} else insert k (?F - {K_all}))"
    using assms(2) by (auto simp: get_flag_newFilters)
  moreover have "checkbox_label k \<in> B \<longleftrightarrow> k \<in> ?F"
    unfolding B_def set_checked_labels by (rule inj_image_mem_iff [OF inj_checkbox_label])
  moreover have "checkbox_label ` (A - {k, K_all}) = checkbox_label ` A - {checkbox_label k, text_all}"
    "checkbox_label ` (A - {K_all}) = checkbox_label ` A - {text_all}" for A
    using image_set_diff [OF inj_checkbox_label, of A] by simp_all
  ultimately show ?thesis
    unfolding B_def set_checked_labels by simp
qed

subsection \<open>The images\<close>

lemma carrier_image_Asset:
  "(\<exists>a. carrier_image c = Asset a) \<longleftrightarrow> c \<in> set (map fst carrierImages)"
proof (cases "map_of carrierImages c")
  case None
  then have "c \<notin> fst ` set carrierImages" by (simp add: map_of_eq_None_iff)
  with None show ?thesis by (simp add: carrier_image_def)
next
  case (Some a)
  then have "c \<in> fst ` set carrierImages" by (force dest: map_of_SomeD)
  with Some show ?thesis by (simp add: carrier_image_def)
qed

lemma img_sources_render:
  "map (prop_of ''src'') (named ''img'' (render c)) =
     concat (map (\<lambda>t. [Some (Image (carrier_image (carrier t))),
                        Some (Image (carrier_image ''Arrow''))]) (filteredTickets c))"
proof -
  have "concat (map (named ''img'') (ticket_cards cur ts))
          = concat (map (\<lambda>t. [Element ''img''
                 [(''src'', Image (carrier_image (carrier t))), (''alt'', Str (carrier t))] [],
               Element ''img''
                 [(''src'', Image (carrier_image ''Arrow'')), (''alt'', Str ''Arrow'')] []]) ts)"
    for cur and ts :: "ticket list"
    by (rule concat_map_ticket_cards) (simp add: ticket_card_def endpoint_def buy_button_def)
  then show ?thesis
    by (simp add: render_def currency_control_def stops_checkbox_def map_concat comp_def)
qed

lemma img_sources_known:
  "list_all (\<lambda>i. \<exists>a. prop_of ''src'' i = Some (Image (Asset a))) (named ''img'' (render c))
     \<longleftrightarrow> (\<forall>t \<in> set (filteredTickets c). carrier t \<in> set (map fst carrierImages))"
proof -
  have arrow: "\<exists>a. carrier_image ''Arrow'' = Asset a"
    unfolding carrier_image_Asset by (simp add: carrierImages_def)
  have "list_all (\<lambda>i. \<exists>a. prop_of ''src'' i = Some (Image (Asset a))) (named ''img'' (render c))
      \<longleftrightarrow> (\<forall>p \<in> set (map (prop_of ''src'') (named ''img'' (render c))).
             \<exists>a. p = Some (Image (Asset a)))"
    by (simp add: list_all_iff)
  also have "\<dots> \<longleftrightarrow> (\<forall>t \<in> set (filteredTickets c). \<exists>a. carrier_image (carrier t) = Asset a)"
    unfolding img_sources_render using arrow by auto
  finally show ?thesis by (simp only: carrier_image_Asset)
qed

subsection \<open>Properties of the render\<close>

text \<open>
  The five checkboxes of the render show the five flags of
  the state, in the order \<open>all\<close>, \<open>nonStop\<close>, \<open>oneStop\<close>, \<open>twoStops\<close>,
  \<open>threeStops\<close>.
\<close>

lemma checkboxes_show_flags:
  "map (prop_of ''checked'') (named ''Checkbox'' (render c)) =
     map (\<lambda>k. Some (Bool (get_flag k (stops (filters c)))))
       [K_all, K_nonStop, K_oneStop, K_twoStops, K_threeStops]"
  by (simp add: render_def currency_control_def stops_checkbox_def)

text \<open>
  The render has exactly one list container, whose children
  are the cards of the tickets of \<open>filteredTickets\<close>, one each and in order. An
  empty list renders a container without children.
\<close>

lemma list_container_holds_cards:
  "map children_of (by_class ''tickets__group'' (render c))
     = [ticket_cards (selectedCurrency c) (filteredTickets c)] \<and>
   length (ticket_cards (selectedCurrency c) (filteredTickets c)) = length (filteredTickets c) \<and>
   (\<forall>i < length (filteredTickets c).
      ticket_cards (selectedCurrency c) (filteredTickets c) ! i
        = ticket_card (selectedCurrency c) i (filteredTickets c ! i))"
  by (simp add: nth_ticket_cards) (simp add: render_def currency_control_def stops_checkbox_def)

text \<open>
  The buy buttons of the render, in order, carry for each
  ticket of \<open>filteredTickets\<close> the word for \<open>buy\<close>, the price converted to the
  selected currency, a space and the currency code.
\<close>

lemma buy_buttons_show_prices:
  "map text_content (by_class ''tickets__buy'' (render c)) =
     map (\<lambda>t. text_buy @ convertCurrency (price t) (selectedCurrency c) @ '' '' @
               selectedCurrency c)
       (filteredTickets c)"
  by (simp add: by_class_buy_render comp_def)

text \<open>
  C36 (functional): the stop label of a card with a whole stop count below
  \<open>10\<^sup>1\<^sup>5\<close>: \<open>without stops\<close> for 0, the count and the singular for 1, and the
  count and the form of the word used after 2, 3 and 4 for every other count,
  also for 5 and more, where the language asks for the genitive plural.
\<close>

theorem stops_label_whole:
  assumes "n < 10 ^ 15"
  shows "stops_text (Num (of_nat n)) =
           (if n = 0 then text_nonStop
            else digits n @ '' '' @ (if n = 1 then word_singular else word_plural))"
  using assms by (rule stops_text_of_nat)

theorem stops_label_whole_witness:
  "(5 :: nat) < 10 ^ 15 \<and> stops_text (Num (of_nat 5)) = ''5 '' @ word_plural"
  using stops_label_whole [of 5] by simp

text \<open>The label of each specific checkbox is the stop label of the cards it selects.\<close>

lemma checkbox_labels_are_stop_labels:
  "checkbox_label K_nonStop = stops_text (lit 0) \<and>
   checkbox_label K_oneStop = stops_text (lit 1) \<and>
   checkbox_label K_twoStops = stops_text (lit 2) \<and>
   checkbox_label K_threeStops = stops_text (lit 3)"
  by (simp add: stops_text_lits)

text \<open>
  C21 (safety): what is checked is what is shown. In every reachable state,
  for tickets whose stop count is a number of the model, the cards on the page
  are those of the tickets whose stop label is the label of a checked
  checkbox, or of all tickets when the checkbox \<open>all\<close> is checked, in the order
  of the collection. No card is shown under a label that is not checked, and
  none is missing.
\<close>

theorem checked_labels_select_cards:
  assumes "reachable ts c" and "\<forall>t \<in> set ts. wf_number (ticket.stops t)"
  shows "by_class ''tickets__list'' (render c) =
           ticket_cards (selectedCurrency c)
             (filter (\<lambda>t. text_all \<in> set (checked_labels (render c)) \<or>
                          stops_text (ticket.stops t) \<in> set (checked_labels (render c))) ts)"
proof -
  from assms(1) have "filteredTickets c = filter (matches (filters c)) ts"
    by (simp add: reachable_in_sync filtered_filter)
  also have "\<dots> = filter (\<lambda>t. text_all \<in> set (checked_labels (render c)) \<or>
                          stops_text (ticket.stops t) \<in> set (checked_labels (render c))) ts"
    using assms(2) by (intro filter_cong refl matches_checked_labels) simp
  finally show ?thesis by (simp add: by_class_list_render)
qed


theorem checked_labels_select_cards_witness:
  "by_class ''tickets__list''
     (render (dispatch (Checkbox K_nonStop) (mount [flight ''SU'' 0 15300, flight ''S7'' 1 13100])))
     = ticket_cards ''RUB'' [flight ''SU'' 0 15300]"
proof -
  let ?ts = "[flight ''SU'' 0 15300, flight ''S7'' 1 13100]"
  let ?c = "dispatch (Checkbox K_nonStop) (mount ?ts)"
  have r: "reachable ?ts ?c" by (intro reachable.intros)
  have wf: "\<forall>t \<in> set ?ts. wf_number (ticket.stops t)"
    using wf_lit [of 0] wf_lit [of 1] by (simp del: wf_lit)
  have "{k. get_flag k (stops (filters ?c))} = {K_nonStop}"
    by (auto simp: get_flag_newFilters)
  then have l: "set (checked_labels (render ?c)) = {text_nonStop}"
    by (simp only: set_checked_labels) simp
  have "text_all \<noteq> text_nonStop" "''1 '' @ word_singular \<noteq> text_nonStop"
    by (simp_all add: text_defs)
  then have "filter (\<lambda>t. text_all \<in> set (checked_labels (render ?c)) \<or>
                       stops_text (ticket.stops t) \<in> set (checked_labels (render ?c))) ?ts
               = [flight ''SU'' 0 15300]"
    unfolding l by (simp add: stops_text_lits)
  with checked_labels_select_cards [OF r wf] show ?thesis by simp
qed

text \<open>
  C27 (functional): each control acts on what it shows. The first checkbox
  leaves itself as the only one checked. Each other checkbox flips its own
  check mark, clears that of \<open>all\<close> and leaves the others as they are. A
  currency button makes every buy button show the price in the currency the
  button is labelled with, for the same tickets. The buy buttons carry no
  handler: using one changes nothing.
\<close>

theorem controls_act_on_themselves:
  assumes "reachable ts c"
  shows "checked_labels (render (use_nth ''Checkbox'' 0 c)) = [text_all] \<and>
         (0 < i \<and> i < 5 \<longrightarrow>
            (let l = text_content (named ''Checkbox'' (render c) ! i);
                 B = set (checked_labels (render c))
             in set (checked_labels (render (use_nth ''Checkbox'' i c))) =
                  (if l \<in> B then B - {l, text_all} else insert l (B - {text_all})))) \<and>
         (j < 3 \<longrightarrow>
            (let l = text_content (named ''Button'' (render c) ! j)
             in map text_content (by_class ''tickets__buy'' (render (use_nth ''Button'' j c))) =
                  map (\<lambda>t. text_buy @ convertCurrency (price t) l @ '' '' @ l)
                    (filteredTickets c))) \<and>
         (3 \<le> j \<longrightarrow> use_nth ''Button'' j c = c)"
proof -
  from assms have s: "settled c" by (rule reachable_settled)
  obtain k0 where "named ''Checkbox'' (render c) ! 0 = stops_checkbox (filters c) k0"
    and "k0 = K_all" using nth_Checkbox [of 0 c] by auto
  then have "checked_labels (render (use_nth ''Checkbox'' 0 c)) = [text_all]"
    by (simp add: use_nth_Checkbox checked_after_all)
  moreover have "set (checked_labels (render (use_nth ''Checkbox'' i c))) =
      (if text_content (named ''Checkbox'' (render c) ! i) \<in> set (checked_labels (render c))
       then set (checked_labels (render c)) - {text_content (named ''Checkbox'' (render c) ! i), text_all}
       else insert (text_content (named ''Checkbox'' (render c) ! i))
              (set (checked_labels (render c)) - {text_all}))"
    if "0 < i" "i < 5"
  proof -
    from that(2) obtain k where k: "named ''Checkbox'' (render c) ! i = stops_checkbox (filters c) k"
      and "k = K_all \<longleftrightarrow> i = 0" by (rule nth_Checkbox)
    with that(1) have "k \<noteq> K_all" by simp
    then show ?thesis
      unfolding use_nth_Checkbox [OF that(2) k] by (rule checked_after_specific)
  qed
  moreover have "map text_content (by_class ''tickets__buy'' (render (use_nth ''Button'' j c))) =
      map (\<lambda>t. text_buy @ convertCurrency (price t) (text_content (named ''Button'' (render c) ! j)) @
                '' '' @ text_content (named ''Button'' (render c) ! j))
        (filteredTickets c)"
    if "j < 3"
  proof -
    from that obtain b where "named ''Button'' (render c) ! j = currency_control b"
      by (rule nth_Button)
    note u = use_nth_Button [OF that this]
    from s show ?thesis by (simp add: u by_class_buy_render comp_def)
  qed
  moreover have "use_nth ''Button'' j c = c" if "3 \<le> j"
    using that by (rule use_nth_buy_button)
  ultimately show ?thesis unfolding Let_def by blast
qed


theorem controls_act_on_themselves_witness:
  "checked_labels (render (use_nth ''Checkbox'' 0 (mount [flight ''SU'' 0 15300]))) = [text_all] \<and>
   set (checked_labels (render (use_nth ''Checkbox'' 2 (mount [flight ''SU'' 0 15300]))))
     = {''1 '' @ word_singular} \<and>
   map text_content (by_class ''tickets__buy''
     (render (use_nth ''Button'' 1 (mount [flight ''SU'' 0 15300]))))
     = [text_buy @ convertCurrency (Num 15300) ''USD'' @ '' USD''] \<and>
   use_nth ''Button'' 3 (mount [flight ''SU'' 0 15300]) = mount [flight ''SU'' 0 15300]"
proof -
  let ?c = "mount [flight ''SU'' 0 15300]"
  have r: "reachable [flight ''SU'' 0 15300] ?c" by (rule reachable.mounted)
  have B: "set (checked_labels (render ?c)) = {text_all}"
    by (auto simp: set_checked_labels)
  have l: "text_content (named ''Checkbox'' (render ?c) ! 2) = ''1 '' @ word_singular"
    "text_content (named ''Button'' (render ?c) ! 1) = ''USD''"
    by (simp_all add: named_Checkbox_render named_Button_render stops_checkbox_def
        currency_control_def)
  have ne: "''1 '' @ word_singular \<noteq> text_all" by (simp add: text_defs)
  from controls_act_on_themselves [OF r, of 2 1] controls_act_on_themselves [OF r, of 2 3]
  show ?thesis by (simp add: B l [simplified] ne [simplified] Let_def)
qed

text \<open>
  C18 (type): the two casts of the render. In every reachable state the value
  read from \<open>exchangeRates\<close> and cast to \<open>number\<close> is a number, a binary64 value
  other than zero, so the fallback \<open>|| 1\<close> is never taken. The carrier code cast
  to a key of \<open>carrierImages\<close> is one exactly when the carrier is in the table:
  every \<open>img\<close> of the page has an image as its source if and only if every
  ticket on display has one of the four carriers of the table.
\<close>

theorem casts_are_sound:
  assumes "reachable ts c"
  shows "(\<exists>r. get_property exchangeRates (selectedCurrency c) = Number (Num r) \<and>
              r \<noteq> 0 \<and> representable r) \<and>
         (list_all (\<lambda>i. \<exists>a. prop_of ''src'' i = Some (Image (Asset a)))
            (named ''img'' (render c)) \<longleftrightarrow>
          (\<forall>t \<in> set (filtered ts (filters c)). carrier t \<in> set (map fst carrierImages)))"
proof -
  from assms have "selectedCurrency c \<in> set currency_codes"
    using reachable_inv [of ts c] by (simp add: component_inv_def)
  then have "\<exists>r. get_property exchangeRates (selectedCurrency c) = Number (Num r) \<and>
              r \<noteq> 0 \<and> representable r"
    by (rule own_rate)
  with img_sources_known [of c] show ?thesis
    by (simp only: reachable_in_sync [OF assms])
qed


theorem casts_are_sound_witness:
  "get_property exchangeRates (selectedCurrency (mount [flight ''SU'' 0 15300, flight ''XX'' 2 9000]))
     = Number (Num 1) \<and>
   \<not> list_all (\<lambda>i. \<exists>a. prop_of ''src'' i = Some (Image (Asset a)))
      (named ''img'' (render (mount [flight ''SU'' 0 15300, flight ''XX'' 2 9000])))"
proof -
  let ?ts = "[flight ''SU'' 0 15300, flight ''XX'' 2 9000]"
  have r: "reachable ?ts (mount ?ts)" by (rule reachable.mounted)
  have "filtered ?ts (filters (mount ?ts)) = ?ts" by (simp add: filtered_all_flag)
  with casts_are_sound [OF r] show ?thesis
    by (simp add: carrierImages_def get_property_def map_of_exchangeRates)
qed

end
