(* ===== verification/Spec2Isabelle.thy ===== *)
theory Spec2Isabelle
  imports Ticket_View
begin

text \<open>
  A verification development for the flight-ticket list of this repository
  (\<open>src/src/components/TicketList.tsx\<close>, mounted by \<open>src/src/App.tsx\<close>).

  \<^bold>\<open>The program.\<close> One React component, \<open>TicketList\<close>, receives the ticket
  collection as a prop and keeps three pieces of state: the stop-count flags
  \<open>filters\<close>, the visible list \<open>filteredTickets\<close>, and \<open>selectedCurrency\<close>.
  A change of a checkbox runs \<open>handleFilterChange\<close>, which stores a new
  \<open>filters\<close> object; an effect that depends on \<open>[tickets, filters]\<close> then
  runs \<open>filterTickets\<close>, which stores \<open>tickets.filter(...)\<close> in
  \<open>filteredTickets\<close>. A click on a currency button runs
  \<open>handleCurrencyChange\<close>. Rendering prints every ticket of \<open>filteredTickets\<close>
  with its price converted by \<open>convertCurrency\<close>, which looks the rate up in
  \<open>exchangeRates\<close>, multiplies, and prints with \<open>toFixed(2)\<close>.

  \<^bold>\<open>The theories\<close>, in import order.
  \<^item> \<open>Tickets_Prelude\<close>: the fact collections \<open>model_defs\<close>, \<open>flag_simps\<close>,
    \<open>inv_intros\<close>; the type name \<open>js_string\<close>; generic lemmas on \<open>filter\<close> and
    on floors of rational numerals.
  \<^item> \<open>JS_Number\<close>: the type \<open>number\<close>. A finite double is the rational it
    denotes (\<open>Num\<close>), beside \<open>PosInf\<close>, \<open>NegInf\<close> and \<open>NaN\<close>. \<open>binary64\<close> rounds
    a rational to the nearest double, ties to the even significand, with
    subnormals and overflow to infinity; \<open>lit\<close> is a numeric literal,
    \<open>strict_eq\<close> is \<open>===\<close>, \<open>to_boolean\<close> is truthiness, \<open>js_times\<close> is \<open>*\<close>.
    \<open>is_binary64\<close> is the set of finite doubles as IEEE 754 gives it, stated
    without the rounding: the integers below \<open>2\<^sup>5\<^sup>3\<close> in magnitude times a power
    of two from \<open>2\<^sup>-\<^sup>1\<^sup>0\<^sup>7\<^sup>4\<close> to \<open>2\<^sup>9\<^sup>7\<^sup>1\<close>.
    The lemmas show that rounding is idempotent, exact on integers up to
    \<open>2\<^sup>5\<^sup>3\<close>, within half a unit in the last place, symmetric in the sign,
    that its fixed points are the doubles of \<open>is_binary64\<close>
    (\<open>representable_is_binary64\<close>), that no double is nearer to a rational than
    the one it rounds to (\<open>rnd_nearest\<close>), that of two equally near doubles the
    even one is taken (\<open>rnd_tie_even\<close>), that the result is an infinity from
    \<open>2\<^sup>1\<^sup>0\<^sup>2\<^sup>4 - 2\<^sup>9\<^sup>7\<^sup>0\<close> on (\<open>rnd_overflow\<close>), that whatever lies between a
    double and a rational that rounds to it rounds to it too
    (\<open>binary64_between\<close>), and that every rational within the relative distance
    \<open>2\<^sup>-\<^sup>5\<^sup>4\<close> of a double rounds to it (\<open>binary64_near\<close>); \<open>binary64_normal\<close> is
    the closed form by which concrete products are evaluated.
  \<^item> \<open>JS_Format\<close>: \<open>to_string\<close> (\<open>Number.prototype.toString\<close>, which the
    template literal of the stop label calls) and \<open>toFixed\<close>, both after the
    steps of the language standard, with the decimal \<open>digits\<close> of a natural
    number. \<open>string_to_number\<close> with \<open>read_decimal\<close> is the standard's reader
    of a decimal; the program does not call it, it states what the printed
    text denotes. The lemmas show that \<open>digits\<close> and \<open>digits_value\<close> are
    inverse, the shape of a two-digit rendering, that a whole number prints as
    its digits, that \<open>dec_exp\<close> is the decimal exponent, that the decimal
    \<open>shortest\<close> returns rounds to the number, that no decimal with fewer
    digits does, that the reader inverts \<open>layout\<close>, and so that reading back
    what \<open>to_string\<close> prints gives the number; only a whole number prints as
    its digits (\<open>to_string_whole_inj\<close>).
  \<^item> \<open>Ticket_Model\<close>: the interfaces \<open>Ticket\<close> and \<open>Filters\<close> as records, the
    key type \<open>stops_key\<close> of the flags (an instance of \<open>enum\<close>) with indexed
    read \<open>get_flag\<close> and write \<open>set_flag\<close>, and the initial flags.
  \<^item> \<open>JS_Array\<close>: \<open>array_filter\<close> and \<open>array_map\<close>, the methods
    \<open>Array.prototype.filter\<close> and \<open>Array.prototype.map\<close> as loops over the
    indices (\<open>filter_from\<close>, \<open>map_from\<close>). The lemmas show that the loops end
    and compute \<open>filter\<close> and \<open>map\<close> on lists.
  \<^item> \<open>Filter_Selection\<close>: \<open>newFilters\<close>, the object \<open>handleFilterChange\<close>
    builds; sequences of \<open>clicks\<close>; the invariant \<open>exclusive\<close>; the selections
    \<open>selectable\<close> from the initial one, which are exactly the exclusive ones,
    each within four clicks and none in fewer clicks than it has flags set;
    the abstract two-mode selection \<open>mode\<close> with \<open>toggle\<close>, which the five
    booleans refine.
  \<^item> \<open>Filter_Engine\<close>: \<open>matches\<close>, the callback of \<open>tickets.filter\<close>, and
    \<open>filtered\<close>, its result; the contract \<open>visible\<close> in terms of the stop
    counts \<open>admitted\<close> by the flags. The lemmas show that the chain of
    conditions implements the contract, and the cases of the contract: all,
    one flag, several flags, none, and counts without a flag.
  \<^item> \<open>Price_Presenter\<close>: \<open>exchangeRates\<close>, \<open>defaultCurrency\<close> and
    \<open>convertCurrency\<close>, with the property lookup \<open>get_property\<close> (own members,
    then the members every object inherits), the operator \<open>||\<close> as \<open>js_or\<close> and
    the conversion \<open>to_number\<close>. The lemmas give the rate each code selects,
    the exact doubles of the three rates, and the printed price.
  \<^item> \<open>Ticket_List\<close>: the component as a state machine. \<open>initial_render\<close>,
    \<open>filterTickets\<close>, \<open>run_effects\<close>, \<open>handleFilterChange\<close>,
    \<open>handleCurrencyChange\<close> are the functions of the source; \<open>dispatch\<close> is
    one event handled to the end, \<open>step\<close> its two halves, \<open>flush\<close> the loop
    that runs effects until none is pending, \<open>reachable\<close> and \<open>renders\<close> the
    states between events and all committed renders; \<open>view_model\<close> with
    \<open>transition\<close> and \<open>shown\<close> is the view model of the specification, which
    the component implements through \<open>view_of\<close>. The lemmas show the
    invariant \<open>component_inv\<close>, that the list on display is the filtered
    collection between events, when the effect runs, that \<open>dispatch\<close> and
    \<open>step\<close> agree, that \<open>flush\<close> ends after at most one run of the effect,
    that every exclusive selection and every currency can be reached from
    every reachable state, and that a currency button commutes with clicks on
    checkboxes, as two clicks on specific checkboxes do.
  \<^item> \<open>Ticket_View\<close>: the element tree the component returns (\<open>render\<close>, with
    \<open>ticket_card\<close>, \<open>buy_button\<close>, \<open>stops_text\<close>, \<open>stops_checkbox\<close>,
    \<open>currency_control\<close>, \<open>carrier_image\<close>) and the elements of \<open>App\<close> around it,
    the imported module as the record \<open>tickets_json\<close>, the \<open>page\<close> that \<open>App\<close>
    shows after a sequence of events, queries on the tree (among them
    \<open>checked_labels\<close>, the labels of the checked checkboxes), and \<open>use_nth\<close>,
    the use of a control of the page, which handles the events that control
    carries. The lemmas show which handlers, checkboxes, cards and texts the
    page has in a given state, that a stop label tells the stop count
    (\<open>stops_text_inj\<close>, \<open>stops_text_label\<close>), so that the cards on the page are
    those whose label is checked, what the use of each control changes on the
    page, and when the two casts of the render are sound.
  \<^item> \<open>Spec2Isabelle\<close> (this theory): the page in the reachable states, the
    page as a function of the data and the events so far, and a session that
    crosses all components.

  \<^bold>\<open>Modelling choices.\<close>
  \<^item> Numbers are exact: every operation is computed on rationals and rounded
    once, as IEEE 754 prescribes, so the printed prices are those of the
    program, bit for bit. The two zeros are one value; the program never
    divides and prints no sign of zero that could tell them apart.
  \<^item> Strings are lists of bytes, the UTF-8 encoding of the text. The program
    compares currency and carrier codes for equality and concatenates display
    text; it never indexes or measures a string.
  \<^item> React is modelled by what the component relies on: state cells keep
    their value between renders, a setter replaces the value, and an effect
    runs after a render in which one of its dependencies is not identical to
    the one of its last run. Object identity is a natural number; every object
    a handler builds gets the next unused one. The counter \<open>effect_runs\<close> is
    not program state; it records how often \<open>filterTickets\<close> has run.
  \<^item> Elements of the component library (\<open>Button\<close>, \<open>Checkbox\<close>, \<open>Card\<close>,
    \<open>Space\<close>) are nodes of the tree with the properties the source gives
    them; an image is the path of its module.

  \<^bold>\<open>Bounds and fuel.\<close>
  \<^item> \<open>shortest\<close> looks for the shortest digit string that rounds back to a
    double, one length per unit of fuel. It is called with fuel 16 and so
    tries 1 to 16 digits; with the fuel used up it takes the nearest decimal of
    17 digits. The fuel is enough: a decimal of 17 digits nearest to a double
    \<open>a\<close> is at most \<open>a / (2 \<times> 10\<^sup>1\<^sup>6)\<close> away from it, which is less than
    \<open>a / 2\<^sup>5\<^sup>4\<close>, and so rounds to \<open>a\<close> (\<open>seventeen_digits\<close>, \<open>binary64_near\<close>,
    \<open>shortest_rounds_back\<close>). For whole numbers below \<open>10\<^sup>1\<^sup>5\<close> the search ends
    with the digits of the number.
  \<^item> \<open>flush\<close> is a \<open>while\<close> loop with an optional result, since an effect
    that replaced its own dependencies would run forever; for this component
    the result is proved to exist, after at most one iteration.
  \<^item> \<open>filter_from\<close> and \<open>map_from\<close> recurse on the next index; their
    termination is proved with the measure \<open>length xs - k\<close>.
  \<^item> A selection is reached from the initial one by at most four clicks
    (\<open>path_to\<close>), and from any state by at most six events together with a
    currency.
  \<^item> \<open>lead_exp\<close> recurses on ten times its argument; its termination is proved
    with the measure \<open>\<lceil>1 / a\<rceil>\<close>.
  \<^item> Integers are exact up to \<open>2\<^sup>5\<^sup>3\<close>, the bound of the lemmas on whole prices;
    \<open>toFixed\<close> leaves the fixed notation at \<open>10\<^sup>2\<^sup>1\<close>, the bound of the lemmas on
    two fraction digits.

  \<^bold>\<open>Left open.\<close> The price in EUR at an exact tie (\<open>p mod 20 = 10\<close>) is
  evaluated for 10 and 50 and not characterised in general; prices with a
  fraction are covered by the half-hundredth bound of the fixed notation only. Of two
  decimals of the least length that round to a number, \<open>to_string\<close> prints the
  nearer one by construction (\<open>nearest\<close>); that no third decimal of that length
  is nearer follows from the order of the grid and is not stated as a theorem.

  \<^bold>\<open>Not modelled.\<close> The style sheets, the content of the image files, the
  internals of the component library and of React (among them the second run
  of effects in development mode), the build, and the content of the data
  file \<open>tickets.json\<close>, of which the development assumes nothing: every
  theorem holds for every list of tickets, also for stop counts and prices
  that are negative, fractional, infinite or \<open>NaN\<close>. Arrays with holes do not
  occur in the program and are not modelled.
\<close>

text \<open>The five tickets of the end-to-end scenario of the specification.\<close>

definition scenario_tickets :: "ticket list" where
  "scenario_tickets =
     [flight ''A'' 0 100, flight ''B'' 1 200, flight ''C'' 1 300,
      flight ''D'' 2 400, flight ''E'' 3 500]"

lemma usd_products:
  "js_times (Num 200) (Num double_0_01) = Num 2"
  "js_times (Num 300) (Num double_0_01) = Num 3"
  by (simp_all add: js_times_Num double_0_01_def binary64_normal [where e = 1]
      round_half_even_def)

lemma eur_products:
  "js_times (Num 100) (Num double_0_0095) = Num (4278419646001971 / 2 ^ 52)"
  "js_times (Num 200) (Num double_0_0095) = Num (4278419646001971 / 2 ^ 51)"
  "js_times (Num 300) (Num double_0_0095) = Num (6417629469002957 / 2 ^ 51)"
  "js_times (Num 400) (Num double_0_0095) = Num (4278419646001971 / 2 ^ 50)"
  "js_times (Num 500) (Num double_0_0095) = Num (19 / 4)"
  by (simp add: js_times_Num double_0_0095_def binary64_normal [where e = "- 1"]
        round_half_even_def,
      simp add: js_times_Num double_0_0095_def binary64_normal [where e = 0]
        round_half_even_def,
      simp_all add: js_times_Num double_0_0095_def binary64_normal [where e = 1]
        binary64_normal [where e = 2] round_half_even_def)

lemma by_class_buy_App:
  "by_class ''tickets__buy'' (App c) = map (buy_button (selectedCurrency c)) (filteredTickets c)"
  by (simp add: App_def by_class_buy_render)

lemma checked_App:
  "map (prop_of ''checked'') (named ''Checkbox'' (App c)) =
     map (\<lambda>k. Some (Bool (get_flag k (stops (filters c)))))
       [K_all, K_nonStop, K_oneStop, K_twoStops, K_threeStops]"
  by (simp add: App_def render_def currency_control_def stops_checkbox_def)

text \<open>
  C6 (refinement): the page between events. In every state the component
  reaches, the buy buttons of the page are those of the collection it was
  given, filtered by the flags on display, in order, and each carries the price
  multiplied by the rate the table has for the selected currency, printed with
  two fraction digits.
\<close>

theorem page_shows_filtered_collection:
  assumes "reachable ts c"
  shows "selectedCurrency c \<in> set currency_codes \<and>
         map text_content (by_class ''tickets__buy'' (App c)) =
           map (\<lambda>t. text_buy @ toFixed 2 (js_times (price t) (rate_of (selectedCurrency c))) @
                     '' '' @ selectedCurrency c)
             (filtered ts (filters c))"
proof -
  note f = reachable_facts [OF assms]
  from f(2) have cur: "selectedCurrency c \<in> set currency_codes"
    by (simp add: component_inv_def)
  then have "convertCurrency p (selectedCurrency c)
               = toFixed 2 (js_times p (rate_of (selectedCurrency c)))" for p
    by (intro convertCurrency_rate_of own_not_inherited)
  moreover from f have "filteredTickets c = filtered ts (filters c)"
    by (simp add: component_inv_def in_sync_def)
  ultimately show ?thesis using cur by (simp add: by_class_buy_App comp_def)
qed

theorem page_shows_filtered_collection_witness:
  "reachable [flight ''SU'' 0 15300, flight ''S7'' 1 13100]
     (dispatch (Checkbox K_nonStop) (mount [flight ''SU'' 0 15300, flight ''S7'' 1 13100])) \<and>
   map text_content (by_class ''tickets__buy''
     (App (dispatch (Checkbox K_nonStop) (mount [flight ''SU'' 0 15300, flight ''S7'' 1 13100]))))
     = [text_buy @ ''15300.00 RUB'']"
proof -
  let ?ts = "[flight ''SU'' 0 15300, flight ''S7'' 1 13100]"
  have r: "reachable ?ts (dispatch (Checkbox K_nonStop) (mount ?ts))"
    by (intro reachable.intros)
  have "filtered ?ts (newFilters K_nonStop initial_filters) = [flight ''SU'' 0 15300]"
    by (simp add: component_eval)
  moreover have "toFixed 2 (js_times (Num 15300) (Num 1)) = ''15300.00''"
    using times_one [of 15300] toFixed_nat [of 15300] by simp
  ultimately show ?thesis
    using page_shows_filtered_collection [OF r] r
    by (simp add: rate_of_def map_of_exchangeRates)
qed

text \<open>
  C37 (functional): a session across all components. Five tickets with 0, 1, 1,
  2 and 3 stops and prices 100 to 500 are mounted. After a click on \<open>oneStop\<close>
  and on \<open>USD\<close> the page has the buy buttons of the two tickets with one stop,
  priced 2.00 and 3.00; after a further click on \<open>all\<close> and on \<open>EUR\<close> it has all
  five, priced 0.95, 1.90, 2.85, 3.80 and 4.75.
\<close>

theorem session_scenario:
  "map text_content (by_class ''tickets__buy''
     (App (run (mount scenario_tickets) [Checkbox K_oneStop, Button Button_USD])))
     = [text_buy @ ''2.00 USD'', text_buy @ ''3.00 USD''] \<and>
   map text_content (by_class ''tickets__buy''
     (App (run (mount scenario_tickets)
        [Checkbox K_oneStop, Button Button_USD, Checkbox K_all, Button Button_EUR])))
     = [text_buy @ ''0.95 EUR'', text_buy @ ''1.90 EUR'', text_buy @ ''2.85 EUR'',
        text_buy @ ''3.80 EUR'', text_buy @ ''4.75 EUR'']"
proof -
  have key: "''USD'' \<notin> set object_prototype_keys" "''EUR'' \<notin> set object_prototype_keys"
    by (simp_all add: object_prototype_keys_def)
  have one: "filtered scenario_tickets (newFilters K_oneStop initial_filters)
     = [flight ''B'' 1 200, flight ''C'' 1 300]"
    by (simp add: scenario_tickets_def component_eval)
  have every: "filtered scenario_tickets initial_filters = scenario_tickets"
    by (simp add: filtered_all_flag)
  have prices:
    "convertCurrency (Num 200) ''USD'' = ''2.00''"
    "convertCurrency (Num 300) ''USD'' = ''3.00''"
    "convertCurrency (Num 100) ''EUR'' = ''0.95''"
    "convertCurrency (Num 200) ''EUR'' = ''1.90''"
    "convertCurrency (Num 300) ''EUR'' = ''2.85''"
    "convertCurrency (Num 400) ''EUR'' = ''3.80''"
    "convertCurrency (Num 500) ''EUR'' = ''4.75''"
    by (simp_all add: convertCurrency_rate_of key rate_of_def map_of_exchangeRates
        usd_products eur_products toFixed_small fixed_digits_2)
  show ?thesis
    by (simp add: by_class_buy_App dispatch_Checkbox one every prices)
       (simp add: scenario_tickets_def prices)
qed

text \<open>
  C11 (refinement): the page is a function of the imported data and of the
  events so far. After any sequence of events the checkboxes show the clicks
  applied in order to the initial selection, the currency is the one of the
  last currency button (\<open>RUB\<close> when there was none), and the buy buttons are
  those of the imported tickets filtered by the flags on display, in the order
  of the data, priced in that currency.
\<close>

theorem page_after_events:
  "map (prop_of ''checked'') (named ''Checkbox'' (page ticketsData es)) =
     map (\<lambda>k. Some (Bool (get_flag k (stops (clicks initial_filters (checkbox_keys es))))))
       [K_all, K_nonStop, K_oneStop, K_twoStops, K_threeStops] \<and>
   by_class ''tickets__buy'' (page ticketsData es) =
     map (buy_button (currency_after defaultCurrency es))
       (filtered (tickets_json.tickets ticketsData) (clicks initial_filters (checkbox_keys es))) \<and>
   currency_after defaultCurrency es \<in> set currency_codes"
proof -
  let ?c = "run (mount (tickets_json.tickets ticketsData)) es"
  have r: "reachable (tickets_json.tickets ticketsData) ?c"
    by (simp add: reachable_run reachable.mounted)
  have f: "filters ?c = clicks initial_filters (checkbox_keys es)"
    by (simp add: filters_run mount_fields)
  have cur: "selectedCurrency ?c = currency_after defaultCurrency es"
    by (simp add: selectedCurrency_run mount_fields defaultCurrency_def)
  have "defaultCurrency \<in> set currency_codes" by (simp add: defaultCurrency_def)
  then have "currency_after defaultCurrency es \<in> set currency_codes"
    by (rule currency_after_code)
  then show ?thesis
    using reachable_in_sync [OF r]
    by (simp add: page_def by_class_buy_App checked_App f cur)
qed

end
